theory Spec2Isabelle
  imports Complex_Main "HOL-Library.Word"
begin

section \<open>JavaScript numbers and values\<close>

text \<open>
  A JavaScript number is an IEEE 754 double: a finite double, written \<open>Num r\<close> with
  \<open>r\<close> its value, one of the two infinities, or \<open>NaN\<close>. The arithmetic
  operations compute the exact result and round it to the nearest double, a tie going
  to the double with an even significand; a result of magnitude \<open>2 ^ 1024\<close> or more
  after rounding is an infinity, and a result too small for the subnormal doubles is
  zero. \<open>NaN\<close> is also what the program obtains from arithmetic on \<open>undefined\<close> (a
  read past the end of a buffer).

  The sign of zero is not represented: both zeros are \<open>Num 0\<close>. They are equal under
  \<open>===\<close> and every comparison, and the one operation that tells them apart, a
  division by zero, is given the answer for the positive zero.
\<close>

datatype jsnum = Num real | PInf | NInf | NaN

text \<open>The power of two with an integer exponent.\<close>

definition pow2 :: "int \<Rightarrow> real" where
  "pow2 k = (if 0 \<le> k then 2 ^ nat k else 1 / 2 ^ nat (- k))"

text \<open>The integer nearest to a real; of two nearest integers, the even one.\<close>

definition round_even :: "real \<Rightarrow> int" where
  "round_even y =
     (let f = \<lfloor>y\<rfloor> in
      if y - of_int f < 1 / 2 then f
      else if y - of_int f > 1 / 2 then f + 1
      else if even f then f else f + 1)"

text \<open>
  The spacing of the doubles around \<open>x\<close>: from \<open>2 ^ e\<close> up to \<open>2 ^ (e + 1)\<close> the
  doubles are the multiples of \<open>2 ^ (e - 52)\<close> (a significand of 53 bits), and below
  \<open>2 ^ (- 1022)\<close> they are the multiples of \<open>2 ^ (- 1074)\<close> (the subnormal doubles).
\<close>

definition quantum :: "real \<Rightarrow> real" where
  "quantum x = pow2 (max \<lfloor>log 2 \<bar>x\<bar>\<rfloor> (- 1022) - 52)"

text \<open>
  Rounding to the nearest double, ties to even. The largest double is
  \<open>(2 ^ 53 - 1) * 2 ^ 971\<close>; what rounds to \<open>2 ^ 1024\<close> or beyond overflows.
\<close>

definition round_double :: "real \<Rightarrow> jsnum" where
  "round_double x =
     (if x = 0 then Num 0
      else
        let r = of_int (round_even (x / quantum x)) * quantum x in
        if r \<ge> 2 ^ 1024 then PInf else if r \<le> - (2 ^ 1024) then NInf else Num r)"

text \<open>
  Addition, multiplication, division and \<open>Math.sqrt\<close> of doubles, each rounded
  once (\<open>Math.sqrt\<close> is the correctly rounded square root of IEEE 754). \<open>NaN\<close>
  is absorbing; the sum of the two infinities, the product of an infinity and zero,
  the quotient of two infinities or of two zeros, and the square root of a negative
  number are \<open>NaN\<close>.
\<close>

fun jadd :: "jsnum \<Rightarrow> jsnum \<Rightarrow> jsnum" where
  "jadd (Num a) (Num b) = round_double (a + b)"
| "jadd NaN _ = NaN"
| "jadd _ NaN = NaN"
| "jadd PInf NInf = NaN"
| "jadd NInf PInf = NaN"
| "jadd PInf _ = PInf"
| "jadd _ PInf = PInf"
| "jadd NInf _ = NInf"
| "jadd _ NInf = NInf"

fun jmul :: "jsnum \<Rightarrow> jsnum \<Rightarrow> jsnum" where
  "jmul (Num a) (Num b) = round_double (a * b)"
| "jmul NaN _ = NaN"
| "jmul _ NaN = NaN"
| "jmul (Num a) PInf = (if a = 0 then NaN else if 0 < a then PInf else NInf)"
| "jmul (Num a) NInf = (if a = 0 then NaN else if 0 < a then NInf else PInf)"
| "jmul PInf (Num b) = (if b = 0 then NaN else if 0 < b then PInf else NInf)"
| "jmul NInf (Num b) = (if b = 0 then NaN else if 0 < b then NInf else PInf)"
| "jmul PInf PInf = PInf"
| "jmul NInf NInf = PInf"
| "jmul PInf NInf = NInf"
| "jmul NInf PInf = NInf"

fun jdiv :: "jsnum \<Rightarrow> jsnum \<Rightarrow> jsnum" where
  "jdiv (Num a) (Num b) =
     (if b = 0 then (if a = 0 then NaN else if 0 < a then PInf else NInf)
      else round_double (a / b))"
| "jdiv NaN _ = NaN"
| "jdiv _ NaN = NaN"
| "jdiv (Num a) _ = Num 0"
| "jdiv PInf (Num b) = (if 0 \<le> b then PInf else NInf)"
| "jdiv NInf (Num b) = (if 0 \<le> b then NInf else PInf)"
| "jdiv _ _ = NaN"

fun jsqrt :: "jsnum \<Rightarrow> jsnum" where
  "jsqrt (Num a) = (if a < 0 then NaN else round_double (sqrt a))"
| "jsqrt PInf = PInf"
| "jsqrt NInf = NaN"
| "jsqrt NaN = NaN"

text \<open>\<open>Math.max\<close>: \<open>NaN\<close> as soon as one argument is \<open>NaN\<close>.\<close>

fun jmax :: "jsnum \<Rightarrow> jsnum \<Rightarrow> jsnum" where
  "jmax (Num a) (Num b) = Num (max a b)"
| "jmax NaN _ = NaN"
| "jmax _ NaN = NaN"
| "jmax PInf _ = PInf"
| "jmax _ PInf = PInf"
| "jmax NInf b = b"
| "jmax a NInf = a"

text \<open>
  Strict equality and the comparisons greater-than and greater-or-equal on numbers;
  every comparison with \<open>NaN\<close> is false.
\<close>

fun jeq :: "jsnum \<Rightarrow> jsnum \<Rightarrow> bool" where
  "jeq (Num a) (Num b) = (a = b)"
| "jeq PInf PInf = True"
| "jeq NInf NInf = True"
| "jeq _ _ = False"

fun jgt :: "jsnum \<Rightarrow> jsnum \<Rightarrow> bool" where
  "jgt (Num a) (Num b) = (a > b)"
| "jgt PInf (Num b) = True"
| "jgt PInf NInf = True"
| "jgt (Num a) NInf = True"
| "jgt _ _ = False"

fun jge :: "jsnum \<Rightarrow> jsnum \<Rightarrow> bool" where
  "jge (Num a) (Num b) = (a \<ge> b)"
| "jge NaN _ = False"
| "jge _ NaN = False"
| "jge PInf _ = True"
| "jge _ NInf = True"
| "jge _ _ = False"

text \<open>
  An argument of \<open>calculateSimilarity\<close> is any JavaScript value: an array of numbers,
  or a value for which \<open>Array.isArray\<close> is false (\<open>undefined\<close>, \<open>null\<close>, a
  string, an object).
\<close>

datatype js_value = JArray "jsnum list" | JOther

section \<open>imageMatchingService: calculateSimilarity\<close>

text \<open>
  The loop of \<open>calculateSimilarity\<close> (lines 139 to 143): one pass over the indices
  of the first array, updating \<open>dotProduct\<close>, \<open>norm1\<close> and \<open>norm2\<close>. It is only
  entered with arrays of the same length.
\<close>

fun accumulate :: "jsnum list \<Rightarrow> jsnum list \<Rightarrow> jsnum \<times> jsnum \<times> jsnum \<Rightarrow> jsnum \<times> jsnum \<times> jsnum" where
  "accumulate (x # xs) (y # ys) (dotProduct, norm1, norm2) =
     accumulate xs ys (jadd dotProduct (jmul x y), jadd norm1 (jmul x x), jadd norm2 (jmul y y))"
| "accumulate _ _ acc = acc"

definition calculateSimilarity :: "js_value \<Rightarrow> js_value \<Rightarrow> jsnum" where
  "calculateSimilarity embedding1 embedding2 =
     (case (embedding1, embedding2) of
        (JArray e1, JArray e2) \<Rightarrow>
          if length e1 \<noteq> length e2 then Num 0
          else
            (case accumulate e1 e2 (Num 0, Num 0, Num 0) of
               (dotProduct, n1, n2) \<Rightarrow>
                 let norm1 = jsqrt n1; norm2 = jsqrt n2 in
                 if jeq norm1 (Num 0) \<or> jeq norm2 (Num 0) then Num 0
                 else
                   let similarity = jdiv dotProduct (jmul norm1 norm2) in
                   jmax (Num 0) (jdiv (jadd similarity (Num 1)) (Num 2)))
      | _ \<Rightarrow> Num 0)"


text \<open>
  The sum of the squares of one array as the loop accumulates it, from the left and in
  doubles: the value of \<open>norm1\<close> before \<open>Math.sqrt\<close>.
\<close>

definition sum_of_squares :: "jsnum list \<Rightarrow> jsnum" where
  "sum_of_squares xs = foldl (\<lambda>n x. jadd n (jmul x x)) (Num 0) xs"

section \<open>imageMatchingService: the fallback fingerprint\<close>

type_synonym buffer = "8 word list"

text \<open>
  \<open>Math.floor((i / 128) * imageBuffer.length)\<close>, and the read
  \<open>imageBuffer[index] / 255\<close>: a read past the end of the buffer is \<open>undefined\<close>,
  and \<open>undefined / 255\<close> is \<open>NaN\<close>. The quotient \<open>i / 128\<close> is exact in
  doubles, and so is its product with the length of any buffer that fits in memory (a
  length below \<open>2 ^ 46\<close>); the division by 255 is rounded.
\<close>

definition sample_index :: "nat \<Rightarrow> nat \<Rightarrow> nat" where
  "sample_index i len = nat \<lfloor>(real i / 128) * real len\<rfloor>"

definition sample :: "buffer \<Rightarrow> nat \<Rightarrow> jsnum" where
  "sample imageBuffer index =
     (if index < length imageBuffer
      then jdiv (Num (real (unat (imageBuffer ! index)))) (Num 255)
      else NaN)"

text \<open>
  \<open>generateSimpleImageFeatures\<close> (lines 97 to 116). The argument is a buffer, or
  \<open>None\<close> for \<open>undefined\<close> or \<open>null\<close>, on which reading \<open>length\<close> raises a
  TypeError: that is the only way into the \<open>catch\<close> branch, which returns 128 zeros.
\<close>

definition generateSimpleImageFeatures :: "buffer option \<Rightarrow> jsnum list" where
  "generateSimpleImageFeatures imageBuffer =
     (case imageBuffer of
        None \<Rightarrow> replicate 128 (Num 0)
      | Some buf \<Rightarrow>
          jdiv (Num (real (length buf mod 1000))) (Num 1000)
            # map (\<lambda>i. sample buf (sample_index i (length buf))) [0..<128])"

text \<open>An entry that is a number of the interval from 0 to 1.\<close>

definition unit_entry :: "jsnum \<Rightarrow> bool" where
  "unit_entry x = (case x of Num r \<Rightarrow> 0 \<le> r \<and> r \<le> 1 | _ \<Rightarrow> False)"

section \<open>imageMatchingService: processImageForMatching\<close>

datatype js_error = ReferenceError string | PrismaError | NotificationError | FsError | Error string

datatype 'a outcome = Throws | Returns 'a

text \<open>
  What the outside world answers to one call of \<open>processImageForMatching\<close>: whether
  the models can be loaded from disk, the outcome of the download (\<open>fetch\<close> and
  \<open>response.buffer()\<close>), of decoding and drawing the image, and of face detection
  (the descriptors of the detected faces).
\<close>

record image_env =
  models_on_disk :: bool
  fetch_buffer :: "string \<Rightarrow> buffer outcome"
  decode_image :: "buffer \<Rightarrow> unit outcome"
  detect_faces :: "buffer \<Rightarrow> real list list outcome"

text \<open>\<open>loadModels\<close> never raises; it returns the new value of the flag \<open>modelsLoaded\<close>.\<close>

definition loadModels :: "image_env \<Rightarrow> bool \<Rightarrow> bool" where
  "loadModels env modelsLoaded = (if modelsLoaded then True else models_on_disk env)"

text \<open>
  The \<open>catch\<close> block of \<open>processImageForMatching\<close> (lines 85 to 89) evaluates
  \<open>generateSimpleImageFeatures(buffer)\<close>. The constant \<open>buffer\<close> is declared
  inside the \<open>try\<close> block (line 47), so it is not in scope in the \<open>catch\<close>
  block, and neither the module nor the global object binds that name: evaluating the
  argument raises a ReferenceError, before the fallback is called.
\<close>

definition catch_block :: "js_error + jsnum list" where
  "catch_block = Inl (ReferenceError ''buffer is not defined'')"

definition processImageForMatching ::
  "image_env \<Rightarrow> bool \<Rightarrow> string \<Rightarrow> (js_error + jsnum list) \<times> bool" where
  "processImageForMatching env modelsLoaded imageUrl =
     (let loaded = loadModels env modelsLoaded in
      (case fetch_buffer env imageUrl of
         Throws \<Rightarrow> (catch_block, loaded)
       | Returns buf \<Rightarrow>
           (case decode_image env buf of
              Throws \<Rightarrow> (catch_block, loaded)
            | Returns _ \<Rightarrow>
                if \<not> loaded then (Inr (generateSimpleImageFeatures (Some buf)), loaded)
                else
                  (case detect_faces env buf of
                     Throws \<Rightarrow> (catch_block, loaded)
                   | Returns [] \<Rightarrow> (Inr (generateSimpleImageFeatures (Some buf)), loaded)
                   | Returns (descriptor # _) \<Rightarrow> (Inr (map Num descriptor), loaded)))))"

section \<open>faceMatchingService: the external oracle\<close>

text \<open>
  The answer of the service to \<open>POST /face_match\<close>: the call fails (timeout, service
  error), or it returns a body whose field \<open>match\<close> is a boolean or is absent.
\<close>

datatype post_outcome = PostFails | PostReturns "bool option"

record oracle_env =
  temp_dir_ok :: bool
  download_ok :: "string \<Rightarrow> bool"
  face_match :: "string \<Rightarrow> string \<Rightarrow> post_outcome"

record face_result =
  fr_success :: bool
  fr_match :: "bool option"
  fr_confidence :: real

definition face_failure :: face_result where
  "face_failure = \<lparr>fr_success = False, fr_match = Some False, fr_confidence = 0\<rparr>"

text \<open>
  \<open>compareTwoFaces\<close> (lines 52 to 110). Creating the temporary directory happens
  before the \<open>try\<close> and may raise; everything after it is inside the \<open>try\<close>, and
  the \<open>finally\<close> block catches its own errors.
\<close>

definition compareTwoFaces :: "oracle_env \<Rightarrow> string \<Rightarrow> string \<Rightarrow> js_error + face_result" where
  "compareTwoFaces env image1Url image2Url =
     (if \<not> temp_dir_ok env then Inl FsError
      else if \<not> download_ok env image1Url then Inr face_failure
      else if \<not> download_ok env image2Url then Inr face_failure
      else
        (case face_match env image1Url image2Url of
           PostFails \<Rightarrow> Inr face_failure
         | PostReturns m \<Rightarrow>
             Inr \<lparr>fr_success = True, fr_match = m,
                  fr_confidence = (if m = Some True then 95 else 30)\<rparr>))"

record face_entry =
  fe_index :: nat
  fe_image_url :: string
  fe_match :: bool
  fe_confidence :: real

text \<open>
  The loop of \<open>compareMultipleFaces\<close> (lines 130 to 152); \<open>fe_match\<close> keeps the
  truth value of \<open>result.match && result.confidence >= minConfidence\<close>, which is
  all that is read of it. An error raised by \<open>compareTwoFaces\<close> leaves the loop.
\<close>

fun compare_targets ::
  "oracle_env \<Rightarrow> string \<Rightarrow> real \<Rightarrow> nat \<Rightarrow> string list \<Rightarrow> js_error + face_entry list" where
  "compare_targets env sourceImageUrl minConfidence idx [] = Inr []"
| "compare_targets env sourceImageUrl minConfidence idx (targetImageUrl # rest) =
     (case compareTwoFaces env sourceImageUrl targetImageUrl of
        Inl e \<Rightarrow> Inl e
      | Inr result \<Rightarrow>
          (case compare_targets env sourceImageUrl minConfidence (Suc idx) rest of
             Inl e \<Rightarrow> Inl e
           | Inr entries \<Rightarrow>
               Inr ((if fr_success result
                     then \<lparr>fe_index = idx, fe_image_url = targetImageUrl,
                           fe_match = (fr_match result = Some True \<and> fr_confidence result \<ge> minConfidence),
                           fe_confidence = fr_confidence result\<rparr>
                     else \<lparr>fe_index = idx, fe_image_url = targetImageUrl,
                           fe_match = False, fe_confidence = 0\<rparr>) # entries)))"

record multi_result =
  mr_success :: bool
  mr_matches :: "face_entry list"

text \<open>
  \<open>compareMultipleFaces\<close> (lines 120 to 177): the entries that match, sorted by
  descending confidence (the sort of the runtime is stable, as \<open>sort_key\<close> is);
  \<open>matches_found\<close> is the length of \<open>mr_matches\<close>. The \<open>catch\<close> answers
  failure with no matches.
\<close>

definition compareMultipleFaces :: "oracle_env \<Rightarrow> string \<Rightarrow> string list \<Rightarrow> real \<Rightarrow> multi_result" where
  "compareMultipleFaces env sourceImageUrl targetImageUrls minConfidence =
     (case compare_targets env sourceImageUrl minConfidence 0 targetImageUrls of
        Inl e \<Rightarrow> \<lparr>mr_success = False, mr_matches = []\<rparr>
      | Inr matches \<Rightarrow>
          \<lparr>mr_success = True,
           mr_matches = sort_key (\<lambda>m. - fe_confidence m) (filter fe_match matches)\<rparr>)"

section \<open>Reports, images and match records\<close>

datatype case_status = ACTIVE | CLOSED | RESOLVED | CANCELLED

datatype match_status = PENDING | MATCHED | MATCH_CLOSED | REJECTED

text \<open>
  A row of \<open>case_images\<close>: the column \<open>embeddingVector\<close> is a nullable array of
  double precision numbers.
\<close>

record case_image =
  image_id :: string
  imageUrl :: string
  embeddingVector :: "jsnum list option"

text \<open>
  A report with its images; \<open>reporter\<close> is \<open>parentId\<close> of a parent report and
  \<open>finderId\<close> of a finder report.
\<close>

record report =
  report_id :: string
  status :: case_status
  reporter :: string
  images :: "case_image list"

text \<open>
  A row of \<open>matched_cases\<close>. The identifier is a generated text key in the database;
  here it is a number, fresh at each insertion. Timestamps, the verifier and the notes
  are not modelled.
\<close>

record matched_case =
  mc_id :: nat
  parentCaseId :: string
  finderCaseId :: string
  matchConfidence :: jsnum
  mc_status :: match_status
  notificationSent :: bool

record notification =
  userId :: "string option"
  ntype :: string
  matchId :: nat

text \<open>
  The world of one run: the three tables, the notifications delivered so far, and the
  faults the environment will inject. Each database call takes the head of \<open>db_faults\<close>
  and raises when it is \<open>True\<close>; each call of \<open>sendNotification\<close> takes the head of
  \<open>notify_faults\<close> likewise. An empty list means no more faults.
\<close>

record world =
  parentReports :: "report list"
  finderReports :: "report list"
  matchedCases :: "matched_case list"
  sent :: "notification list"
  db_faults :: "bool list"
  notify_faults :: "bool list"

type_synonym 'a io = "world \<Rightarrow> (js_error + 'a) \<times> world"

definition return_io :: "'a \<Rightarrow> 'a io" where
  "return_io x w = (Inr x, w)"

definition throw_io :: "js_error \<Rightarrow> 'a io" where
  "throw_io e w = (Inl e, w)"

definition bind_io :: "'a io \<Rightarrow> ('a \<Rightarrow> 'b io) \<Rightarrow> 'b io" where
  "bind_io m f w = (case m w of (Inl e, w') \<Rightarrow> (Inl e, w') | (Inr x, w') \<Rightarrow> f x w')"

text \<open>\<open>try { m } catch (e) { console.error(e) }\<close>: the effects of \<open>m\<close> stay.\<close>

definition try_catch :: "unit io \<Rightarrow> unit io" where
  "try_catch m w = (case m w of (Inl e, w') \<Rightarrow> (Inr (), w') | (Inr x, w') \<Rightarrow> (Inr x, w'))"

text \<open>A database call: it raises when the next fault says so, and runs otherwise.\<close>

definition prisma_call :: "'a io \<Rightarrow> 'a io" where
  "prisma_call operation w =
     (case db_faults w of
        [] \<Rightarrow> operation w
      | fault # rest \<Rightarrow>
          if fault then (Inl PrismaError, w\<lparr>db_faults := rest\<rparr>)
          else operation (w\<lparr>db_faults := rest\<rparr>))"

definition parentReport_findUnique :: "string \<Rightarrow> report option io" where
  "parentReport_findUnique rid =
     prisma_call (\<lambda>w. (Inr (find (\<lambda>r. report_id r = rid) (parentReports w)), w))"

definition finderReport_findUnique :: "string \<Rightarrow> report option io" where
  "finderReport_findUnique rid =
     prisma_call (\<lambda>w. (Inr (find (\<lambda>r. report_id r = rid) (finderReports w)), w))"

text \<open>\<open>findMany\<close> with \<open>where\<close> a predicate on the rows.\<close>

definition parentReport_findMany :: "(report \<Rightarrow> bool) \<Rightarrow> report list io" where
  "parentReport_findMany P = prisma_call (\<lambda>w. (Inr (filter P (parentReports w)), w))"

definition finderReport_findMany :: "(report \<Rightarrow> bool) \<Rightarrow> report list io" where
  "finderReport_findMany P = prisma_call (\<lambda>w. (Inr (filter P (finderReports w)), w))"

definition same_pair :: "string \<Rightarrow> string \<Rightarrow> matched_case \<Rightarrow> bool" where
  "same_pair p f m = (parentCaseId m = p \<and> finderCaseId m = f)"

definition matchedCase_findFirst :: "string \<Rightarrow> string \<Rightarrow> matched_case option io" where
  "matchedCase_findFirst p f =
     prisma_call (\<lambda>w. (Inr (find (same_pair p f) (matchedCases w)), w))"

definition fresh_id :: "matched_case list \<Rightarrow> nat" where
  "fresh_id ms = Suc (fold max (map mc_id ms) 0)"

text \<open>
  \<open>matchedCase.create\<close>: the row gets a fresh identifier and is appended. The unique
  index of the table on the pair of report identifiers is not modelled: what is proved
  about duplicates is proved of the program's own lookup.
\<close>

definition matchedCase_create ::
  "string \<Rightarrow> string \<Rightarrow> jsnum \<Rightarrow> match_status \<Rightarrow> matched_case io" where
  "matchedCase_create p f confidence st =
     prisma_call (\<lambda>w.
       let row = \<lparr>mc_id = fresh_id (matchedCases w), parentCaseId = p, finderCaseId = f,
                  matchConfidence = confidence, mc_status = st, notificationSent = False\<rparr>
       in (Inr row, w\<lparr>matchedCases := matchedCases w @ [row]\<rparr>))"

text \<open>\<open>matchedCase.update\<close> of the row with a given identifier; it raises when there is none.\<close>

definition matchedCase_update :: "nat \<Rightarrow> (matched_case \<Rightarrow> matched_case) \<Rightarrow> matched_case io" where
  "matchedCase_update i change =
     prisma_call (\<lambda>w.
       case find (\<lambda>m. mc_id m = i) (matchedCases w) of
         None \<Rightarrow> (Inl PrismaError, w)
       | Some row \<Rightarrow>
           (Inr (change row),
            w\<lparr>matchedCases := map (\<lambda>m. if mc_id m = i then change m else m) (matchedCases w)\<rparr>))"

text \<open>
  \<open>sendNotification\<close> re-raises every error of its own (notificationService, lines
  138 to 141); a delivered notification is recorded.
\<close>

definition sendNotification :: "string option \<Rightarrow> string \<Rightarrow> nat \<Rightarrow> unit io" where
  "sendNotification uid ty mid w =
     (let delivered = w\<lparr>sent := sent w @ [\<lparr>userId = uid, ntype = ty, matchId = mid\<rparr>]\<rparr> in
      case notify_faults w of
        [] \<Rightarrow> (Inr (), delivered)
      | fault # rest \<Rightarrow>
          if fault then (Inl NotificationError, w\<lparr>notify_faults := rest\<rparr>)
          else (Inr (), delivered\<lparr>notify_faults := rest\<rparr>))"


section \<open>faceMatchingService: compareReportImages\<close>

record best_match =
  bm_matched :: bool
  bm_confidence :: real

text \<open>
  The loop of \<open>compareReportImages\<close> (lines 211 to 239): each parent image is
  compared with all finder images, and the top match replaces the best one when its
  confidence is strictly greater. The identifiers and URLs of the best pair of images
  are only echoed to the client and are left out.
\<close>

fun compare_parent_images ::
  "oracle_env \<Rightarrow> case_image list \<Rightarrow> case_image list \<Rightarrow> real \<Rightarrow> best_match \<Rightarrow> best_match" where
  "compare_parent_images env [] finderImages minConfidence bestMatch = bestMatch"
| "compare_parent_images env (parentImage # rest) finderImages minConfidence bestMatch =
     (let result = compareMultipleFaces env (imageUrl parentImage) (map imageUrl finderImages) minConfidence
      in compare_parent_images env rest finderImages minConfidence
           (if mr_success result \<and> length (mr_matches result) > 0 then
              (let topMatch = hd (mr_matches result) in
               if fe_confidence topMatch > bm_confidence bestMatch
               then \<lparr>bm_matched = True, bm_confidence = fe_confidence topMatch\<rparr>
               else bestMatch)
            else bestMatch))"

definition compareReportImages ::
  "oracle_env \<Rightarrow> case_image list \<Rightarrow> case_image list \<Rightarrow> real \<Rightarrow> best_match" where
  "compareReportImages env parentImages finderImages minConfidence =
     compare_parent_images env parentImages finderImages minConfidence
       \<lparr>bm_matched = False, bm_confidence = 0\<rparr>"

section \<open>caseService: findMatches\<close>

text \<open>The constant of line 90: the literal \<open>0.7\<close> denotes the double nearest to 7/10.\<close>

definition SIMILARITY_THRESHOLD :: jsnum where
  "SIMILARITY_THRESHOLD = round_double (7 / 10)"

text \<open>
  The two nested loops over the images (lines 97 to 116). An image whose vector is
  \<open>null\<close> or empty is skipped; \<open>bestSimilarity\<close> is replaced when the similarity is
  strictly greater. \<open>matchedImages\<close> is assigned and never read, and is left out.
\<close>

fun compare_target_images :: "jsnum list \<Rightarrow> case_image list \<Rightarrow> jsnum \<Rightarrow> jsnum" where
  "compare_target_images sourceVector [] bestSimilarity = bestSimilarity"
| "compare_target_images sourceVector (targetImage # rest) bestSimilarity =
     (case embeddingVector targetImage of
        None \<Rightarrow> compare_target_images sourceVector rest bestSimilarity
      | Some targetVector \<Rightarrow>
          if length targetVector = 0 then compare_target_images sourceVector rest bestSimilarity
          else
            (let similarity = calculateSimilarity (JArray sourceVector) (JArray targetVector)
             in compare_target_images sourceVector rest
                  (if jgt similarity bestSimilarity then similarity else bestSimilarity)))"

fun compare_source_images :: "case_image list \<Rightarrow> case_image list \<Rightarrow> jsnum \<Rightarrow> jsnum" where
  "compare_source_images [] targetImages bestSimilarity = bestSimilarity"
| "compare_source_images (sourceImage # rest) targetImages bestSimilarity =
     (case embeddingVector sourceImage of
        None \<Rightarrow> compare_source_images rest targetImages bestSimilarity
      | Some sourceVector \<Rightarrow>
          if length sourceVector = 0 then compare_source_images rest targetImages bestSimilarity
          else compare_source_images rest targetImages
                 (compare_target_images sourceVector targetImages bestSimilarity))"

definition bestSimilarity_of :: "report \<Rightarrow> report \<Rightarrow> jsnum" where
  "bestSimilarity_of sourceReport targetReport =
     compare_source_images (images sourceReport) (images targetReport) (Num 0)"

text \<open>
  Lines 132 to 197, for the pair \<open>(p, f)\<close> of \<open>matchData\<close>: the lookup, and when
  there is no row, the insertion with status PENDING and the three notifications, none
  of which is inside a \<open>try\<close> of its own.
\<close>

definition persist_candidate ::
  "string \<Rightarrow> string \<Rightarrow> report \<Rightarrow> report \<Rightarrow> jsnum \<Rightarrow> matched_case list \<Rightarrow> matched_case list io" where
  "persist_candidate p f parentCase finderCase bestSimilarity matches =
     bind_io (matchedCase_findFirst p f) (\<lambda>existingMatch.
       case existingMatch of
         Some _ \<Rightarrow> return_io matches
       | None \<Rightarrow>
           bind_io (matchedCase_create p f bestSimilarity PENDING) (\<lambda>newMatch.
           bind_io (sendNotification (Some (reporter parentCase)) ''MATCH_FOUND'' (mc_id newMatch)) (\<lambda>_.
           bind_io (sendNotification (Some (reporter finderCase)) ''MATCH_FOUND'' (mc_id newMatch)) (\<lambda>_.
           bind_io (sendNotification None ''ADMIN_ALERT'' (mc_id newMatch)) (\<lambda>_.
           return_io (matches @ [newMatch]))))))"

text \<open>
  The body of the loop over the candidates (lines 93 to 199). The candidate is accepted
  when \<open>bestSimilarity >= SIMILARITY_THRESHOLD\<close>; the parent report comes first in
  \<open>matchData\<close> whichever side is the source.
\<close>

definition match_candidate ::
  "string \<Rightarrow> string \<Rightarrow> report \<Rightarrow> report \<Rightarrow> matched_case list \<Rightarrow> matched_case list io" where
  "match_candidate reportId reportType sourceReport targetReport matches =
     (let bestSimilarity = bestSimilarity_of sourceReport targetReport in
      if jge bestSimilarity SIMILARITY_THRESHOLD then
        (if reportType = ''PARENT''
         then persist_candidate reportId (report_id targetReport) sourceReport targetReport
                bestSimilarity matches
         else persist_candidate (report_id targetReport) reportId targetReport sourceReport
                bestSimilarity matches)
      else return_io matches)"

fun match_loop ::
  "string \<Rightarrow> string \<Rightarrow> report \<Rightarrow> report list \<Rightarrow> matched_case list \<Rightarrow> matched_case list io" where
  "match_loop reportId reportType sourceReport [] matches = return_io matches"
| "match_loop reportId reportType sourceReport (targetReport # rest) matches =
     bind_io (match_candidate reportId reportType sourceReport targetReport matches)
       (\<lambda>matches'. match_loop reportId reportType sourceReport rest matches')"

text \<open>
  \<open>findMatches\<close> (lines 10 to 208). The outer \<open>catch\<close> logs and raises the error
  again. The result is the list of the rows inserted by this run.
\<close>

definition findMatches :: "string \<Rightarrow> string \<Rightarrow> matched_case list io" where
  "findMatches reportId reportType =
     (if reportType = ''PARENT'' then
        bind_io (parentReport_findUnique reportId) (\<lambda>found.
          case found of
            None \<Rightarrow> throw_io (Error ''Parent report not found'')
          | Some sourceReport \<Rightarrow>
              bind_io (finderReport_findMany (\<lambda>r. status r = ACTIVE \<and> report_id r \<noteq> reportId))
                (\<lambda>targetReports. match_loop reportId reportType sourceReport targetReports []))
      else if reportType = ''FINDER'' then
        bind_io (finderReport_findUnique reportId) (\<lambda>found.
          case found of
            None \<Rightarrow> throw_io (Error ''Finder report not found'')
          | Some sourceReport \<Rightarrow>
              bind_io (parentReport_findMany (\<lambda>r. status r = ACTIVE \<and> report_id r \<noteq> reportId))
                (\<lambda>targetReports. match_loop reportId reportType sourceReport targetReports []))
      else throw_io (Error ''Invalid report type''))"

section \<open>faceMatchController\<close>

text \<open>
  The block that the three handlers repeat (lines 126 to 156, 295 to 323 and 435 to
  463): look the pair up; update the row found, or insert one, with status MATCHED.
\<close>

definition upsert_match :: "string \<Rightarrow> string \<Rightarrow> real \<Rightarrow> matched_case io" where
  "upsert_match p f confidence =
     bind_io (matchedCase_findFirst p f) (\<lambda>existingMatch.
       case existingMatch of
         Some existing \<Rightarrow>
           matchedCase_update (mc_id existing)
             (\<lambda>m. m\<lparr>matchConfidence := Num confidence, mc_status := MATCHED\<rparr>)
       | None \<Rightarrow> matchedCase_create p f (Num confidence) MATCHED)"

text \<open>The notifications of the two list handlers (lines 159 to 193 and 326 to 357), in their \<open>try\<close>.\<close>

definition notify_both :: "report \<Rightarrow> report \<Rightarrow> matched_case \<Rightarrow> unit io" where
  "notify_both parentReport finderReport matchRecord =
     try_catch
       (bind_io (sendNotification (Some (reporter parentReport)) ''MATCH_FOUND'' (mc_id matchRecord)) (\<lambda>_.
        bind_io (sendNotification (Some (reporter finderReport)) ''MATCH_FOUND'' (mc_id matchRecord)) (\<lambda>_.
        bind_io (matchedCase_update (mc_id matchRecord) (\<lambda>m. m\<lparr>notificationSent := True\<rparr>)) (\<lambda>_.
        return_io ()))))"

text \<open>
  The body of the loop of both list handlers, for one parent report and one finder
  report. The entry pushed to \<open>matches\<close> is represented by the row \<open>matchRecord\<close>.
\<close>

definition match_pair ::
  "oracle_env \<Rightarrow> real \<Rightarrow> report \<Rightarrow> report \<Rightarrow> matched_case list \<Rightarrow> matched_case list io" where
  "match_pair env minConfidence parentReport finderReport matches =
     (let matchResult = compareReportImages env (images parentReport) (images finderReport) minConfidence
      in if bm_matched matchResult then
           bind_io (upsert_match (report_id parentReport) (report_id finderReport)
                      (bm_confidence matchResult)) (\<lambda>matchRecord.
           bind_io (notify_both parentReport finderReport matchRecord) (\<lambda>_.
           return_io (matches @ [matchRecord])))
         else return_io matches)"

fun finder_loop ::
  "oracle_env \<Rightarrow> real \<Rightarrow> report \<Rightarrow> report list \<Rightarrow> matched_case list \<Rightarrow> matched_case list io" where
  "finder_loop env minConfidence parentReport [] matches = return_io matches"
| "finder_loop env minConfidence parentReport (finderReport # rest) matches =
     (if length (images finderReport) = 0 then finder_loop env minConfidence parentReport rest matches
      else bind_io (match_pair env minConfidence parentReport finderReport matches)
             (\<lambda>matches'. finder_loop env minConfidence parentReport rest matches'))"

fun parent_loop ::
  "oracle_env \<Rightarrow> real \<Rightarrow> report \<Rightarrow> report list \<Rightarrow> matched_case list \<Rightarrow> matched_case list io" where
  "parent_loop env minConfidence finderReport [] matches = return_io matches"
| "parent_loop env minConfidence finderReport (parentReport # rest) matches =
     (if length (images parentReport) = 0 then parent_loop env minConfidence finderReport rest matches
      else bind_io (match_pair env minConfidence parentReport finderReport matches)
             (\<lambda>matches'. parent_loop env minConfidence finderReport rest matches'))"

text \<open>The HTTP answer: the status code and the matches reported.\<close>

datatype http_response = Response nat "matched_case list"

text \<open>An error raised in a handler goes to \<open>asyncHandler\<close>, that is, to the caller.\<close>

definition findMatchesForParentReport :: "oracle_env \<Rightarrow> string \<Rightarrow> real \<Rightarrow> http_response io" where
  "findMatchesForParentReport env parentReportId minConfidence =
     bind_io (parentReport_findUnique parentReportId) (\<lambda>found.
       case found of
         None \<Rightarrow> return_io (Response 404 [])
       | Some parentReport \<Rightarrow>
           if length (images parentReport) = 0 then return_io (Response 400 [])
           else
             bind_io (finderReport_findMany (\<lambda>r. status r = ACTIVE)) (\<lambda>finderReports.
             bind_io (finder_loop env minConfidence parentReport finderReports []) (\<lambda>matches.
             return_io (Response 200 matches))))"

definition findMatchesForFinderReport :: "oracle_env \<Rightarrow> string \<Rightarrow> real \<Rightarrow> http_response io" where
  "findMatchesForFinderReport env finderReportId minConfidence =
     bind_io (finderReport_findUnique finderReportId) (\<lambda>found.
       case found of
         None \<Rightarrow> return_io (Response 404 [])
       | Some finderReport \<Rightarrow>
           if length (images finderReport) = 0 then return_io (Response 400 [])
           else
             bind_io (parentReport_findMany (\<lambda>r. status r = ACTIVE)) (\<lambda>parentReports.
             bind_io (parent_loop env minConfidence finderReport parentReports []) (\<lambda>matches.
             return_io (Response 200 matches))))"

text \<open>
  \<open>compareSpecificReports\<close> (lines 384 to 482); an empty identifier is falsy. It
  sends no notification.
\<close>

definition compareSpecificReports ::
  "oracle_env \<Rightarrow> string \<Rightarrow> string \<Rightarrow> real \<Rightarrow> http_response io" where
  "compareSpecificReports env parentReportId finderReportId minConfidence =
     (if parentReportId = [] \<or> finderReportId = [] then return_io (Response 400 [])
      else
        bind_io (parentReport_findUnique parentReportId) (\<lambda>foundParent.
        bind_io (finderReport_findUnique finderReportId) (\<lambda>foundFinder.
          case (foundParent, foundFinder) of
            (Some parentReport, Some finderReport) \<Rightarrow>
              if length (images parentReport) = 0 \<or> length (images finderReport) = 0
              then return_io (Response 400 [])
              else
                (let matchResult = compareReportImages env (images parentReport)
                                     (images finderReport) minConfidence
                 in if bm_matched matchResult then
                      bind_io (upsert_match parentReportId finderReportId (bm_confidence matchResult))
                        (\<lambda>matchRecord. return_io (Response 200 [matchRecord]))
                    else return_io (Response 200 []))
          | _ \<Rightarrow> return_io (Response 404 []))))"

section \<open>Notions the properties are stated with\<close>





text \<open>The pair of report identifiers of a row, and the number of rows of a pair.\<close>

definition pair_of :: "matched_case \<Rightarrow> string \<times> string" where
  "pair_of m = (parentCaseId m, finderCaseId m)"

definition count_pair :: "string \<Rightarrow> string \<Rightarrow> matched_case list \<Rightarrow> nat" where
  "count_pair p f ms = length (filter (same_pair p f) ms)"

definition pairs_unique :: "matched_case list \<Rightarrow> bool" where
  "pairs_unique ms = distinct (map pair_of ms)"

text \<open>
  Canonical order: the first identifier of every row is that of a parent report and
  the second that of a finder report.
\<close>

definition canonical :: "world \<Rightarrow> bool" where
  "canonical w =
     list_all (\<lambda>m. parentCaseId m \<in> set (map report_id (parentReports w))
                  \<and> finderCaseId m \<in> set (map report_id (finderReports w)))
              (matchedCases w)"

text \<open>
  From one table of rows to a later one, no pair gets a second row: the number of rows
  of every pair is the same, or goes from none to one.
\<close>

definition no_second_record :: "matched_case list \<Rightarrow> matched_case list \<Rightarrow> bool" where
  "no_second_record ms ms' =
     (\<forall>p f. count_pair p f ms' = count_pair p f ms
            \<or> (count_pair p f ms = 0 \<and> count_pair p f ms' = 1))"

definition extends :: "world \<Rightarrow> world \<Rightarrow> bool" where
  "extends w w' =
     (parentReports w' = parentReports w \<and> finderReports w' = finderReports w
      \<and> no_second_record (matchedCases w) (matchedCases w'))"

text \<open>The effect of handling the pair \<open>(p, f)\<close>: the pairs of the rows stay, or the pair
  had no row and gets one at the end.\<close>

definition effect :: "string \<Rightarrow> string \<Rightarrow> world \<Rightarrow> world \<Rightarrow> bool" where
  "effect p f w w' =
     (parentReports w' = parentReports w \<and> finderReports w' = finderReports w
      \<and> (map pair_of (matchedCases w') = map pair_of (matchedCases w)
         \<or> (find (same_pair p f) (matchedCases w) = None
            \<and> map pair_of (matchedCases w') = map pair_of (matchedCases w) @ [(p, f)])))"

text \<open>
  What one run of \<open>findMatches\<close> works on: the candidates it loads, the pair it
  stores for a candidate, and the candidates it accepts.
\<close>

definition candidates :: "string \<Rightarrow> string \<Rightarrow> world \<Rightarrow> report list" where
  "candidates reportId reportType w =
     (if reportType = ''PARENT''
      then filter (\<lambda>r. status r = ACTIVE \<and> report_id r \<noteq> reportId) (finderReports w)
      else filter (\<lambda>r. status r = ACTIVE \<and> report_id r \<noteq> reportId) (parentReports w))"

definition source_of :: "string \<Rightarrow> string \<Rightarrow> world \<Rightarrow> report option" where
  "source_of reportId reportType w =
     (if reportType = ''PARENT'' then find (\<lambda>r. report_id r = reportId) (parentReports w)
      else if reportType = ''FINDER'' then find (\<lambda>r. report_id r = reportId) (finderReports w)
      else None)"

definition stored_pair :: "string \<Rightarrow> string \<Rightarrow> report \<Rightarrow> string \<times> string" where
  "stored_pair reportId reportType t =
     (if reportType = ''PARENT'' then (reportId, report_id t) else (report_id t, reportId))"

definition accepted :: "report \<Rightarrow> report \<Rightarrow> bool" where
  "accepted s t = jge (bestSimilarity_of s t) SIMILARITY_THRESHOLD"

definition fault_free :: "world \<Rightarrow> bool" where
  "fault_free w = (db_faults w = [] \<and> notify_faults w = [])"

text \<open>The pair \<open>(p, f)\<close> has a row with status MATCHED.\<close>

definition has_matched :: "string \<Rightarrow> string \<Rightarrow> world \<Rightarrow> bool" where
  "has_matched p f w = list_ex (\<lambda>m. same_pair p f m \<and> mc_status m = MATCHED) (matchedCases w)"

text \<open>The pair \<open>(p, f)\<close> has a row with confidence \<open>c\<close> and status \<open>st\<close>.\<close>

definition stored :: "string \<Rightarrow> string \<Rightarrow> jsnum \<Rightarrow> match_status \<Rightarrow> world \<Rightarrow> bool" where
  "stored p f c st w =
     list_ex (\<lambda>m. same_pair p f m \<and> matchConfidence m = c \<and> mc_status m = st) (matchedCases w)"

text \<open>
  A pair of identifiers that name a parent report and a finder report of the tables;
  and the relation between the world before and after a run that C1 is about.
\<close>

definition valid_pair :: "string \<times> string \<Rightarrow> world \<Rightarrow> bool" where
  "valid_pair pf w =
     (fst pf \<in> set (map report_id (parentReports w)) \<and> snd pf \<in> set (map report_id (finderReports w)))"

definition lawful :: "world \<Rightarrow> world \<Rightarrow> bool" where
  "lawful w w' = (extends w w' \<and> (canonical w \<longrightarrow> canonical w'))"

definition same_tables :: "world \<Rightarrow> world \<Rightarrow> bool" where
  "same_tables w w' =
     (parentReports w' = parentReports w \<and> finderReports w' = finderReports w
      \<and> matchedCases w' = matchedCases w)"

text \<open>The world after one database call that did not raise: one fault less to come.\<close>

definition advance :: "world \<Rightarrow> world" where
  "advance w = w\<lparr>db_faults := tl (db_faults w)\<rparr>"

text \<open>
  The row that the insertion for the pair \<open>(p, f)\<close> appends to the table of world
  \<open>w\<close>; a pair that has a row; identifiers that are unique, as a primary key is.
\<close>

definition new_row :: "world \<Rightarrow> string \<Rightarrow> string \<Rightarrow> jsnum \<Rightarrow> match_status \<Rightarrow> matched_case" where
  "new_row w p f c st =
     \<lparr>mc_id = fresh_id (matchedCases w), parentCaseId = p, finderCaseId = f,
      matchConfidence = c, mc_status = st, notificationSent = False\<rparr>"

definition present :: "string \<times> string \<Rightarrow> world \<Rightarrow> bool" where
  "present pf w = (find (same_pair (fst pf) (snd pf)) (matchedCases w) \<noteq> None)"

definition ids_unique :: "matched_case list \<Rightarrow> bool" where
  "ids_unique ms = distinct (map mc_id ms)"

section \<open>Concrete inputs\<close>

text \<open>A parent report \<open>A\<close> and two finder reports \<open>B\<close> and \<open>C\<close>, one image each.\<close>

definition image_of :: "string \<Rightarrow> jsnum list \<Rightarrow> case_image" where
  "image_of i v = \<lparr>image_id = i, imageUrl = ''http://img/'' @ i, embeddingVector = Some v\<rparr>"

definition reportA :: report where
  "reportA = \<lparr>report_id = ''A'', status = ACTIVE, reporter = ''alice'',
               images = [image_of ''a1'' [Num 1, Num 0, Num 0]]\<rparr>"

definition reportB :: report where
  "reportB = \<lparr>report_id = ''B'', status = ACTIVE, reporter = ''bob'',
               images = [image_of ''b1'' [Num 1, Num 0, Num 0]]\<rparr>"

definition reportC :: report where
  "reportC = \<lparr>report_id = ''C'', status = ACTIVE, reporter = ''carol'',
               images = [image_of ''c1'' [Num 1, Num 0, Num 0]]\<rparr>"

definition world0 :: world where
  "world0 = \<lparr>parentReports = [reportA], finderReports = [reportB, reportC], matchedCases = [],
              sent = [], db_faults = [], notify_faults = []\<rparr>"

text \<open>An environment in which every download fails, and one in which everything works.\<close>

definition offline_env :: image_env where
  "offline_env = \<lparr>models_on_disk = True, fetch_buffer = (\<lambda>_. Throws),
                   decode_image = (\<lambda>_. Returns ()), detect_faces = (\<lambda>_. Returns [])\<rparr>"

definition agreeing_oracle :: oracle_env where
  "agreeing_oracle = \<lparr>temp_dir_ok = True, download_ok = (\<lambda>_. True),
                        face_match = (\<lambda>_ _. PostReturns (Some True))\<rparr>"

definition denying_oracle :: oracle_env where
  "denying_oracle = \<lparr>temp_dir_ok = True, download_ok = (\<lambda>_. True),
                       face_match = (\<lambda>_ _. PostReturns (Some False))\<rparr>"

definition failing_oracle :: oracle_env where
  "failing_oracle = \<lparr>temp_dir_ok = True, download_ok = (\<lambda>_. True),
                       face_match = (\<lambda>_ _. PostFails)\<rparr>"




definition world1 :: world where
  "world1 = world0\<lparr>matchedCases :=
     [\<lparr>mc_id = 1, parentCaseId = ''A'', finderCaseId = ''B'', matchConfidence = Num (3 / 4),
       mc_status = PENDING, notificationSent = False\<rparr>]\<rparr>"

text \<open>
  The world \<open>world0\<close> when the first notification fails, and when the third database
  call (the lookup for the first candidate) fails.
\<close>

definition world_notify_fault :: world where
  "world_notify_fault = world0\<lparr>notify_faults := [True]\<rparr>"

definition world_db_fault :: world where
  "world_db_fault = world0\<lparr>db_faults := [False, False, True]\<rparr>"





section \<open>Rounding to a double\<close>

lemma pow2_powr: "pow2 k = 2 powr (of_int k)"
proof (cases "0 \<le> k")
  case True
  then have "2 powr (of_int k) = (2::real) powr (real (nat k))" by simp
  also have "\<dots> = 2 ^ nat k" by (rule powr_realpow) simp
  finally show ?thesis using True by (simp add: pow2_def)
next
  case False
  then have "2 powr (of_int k) = (2::real) powr (- real (nat (- k)))" by simp
  also have "\<dots> = 1 / 2 powr (real (nat (- k)))" by (simp add: powr_minus divide_simps)
  also have "2 powr (real (nat (- k))) = (2::real) ^ nat (- k)" by (rule powr_realpow) simp
  finally show ?thesis using False by (simp add: pow2_def)
qed

lemma pow2_pos: "0 < pow2 k"
  by (simp add: pow2_def)

lemma pow2_add: "pow2 (a + b) = pow2 a * pow2 b"
  by (simp add: pow2_powr powr_add)

lemma pow2_mono: "a \<le> b \<Longrightarrow> pow2 a \<le> pow2 b"
  by (simp add: pow2_powr)

lemma round_even_unique: "\<bar>y - of_int m\<bar> < 1 / 2 \<Longrightarrow> round_even y = m"
proof -
  assume a: "\<bar>y - of_int m\<bar> < 1 / 2"
  show ?thesis
  proof (cases "of_int m \<le> y")
    case True
    with a have "\<lfloor>y\<rfloor> = m" by (intro floor_unique) auto
    with a True show ?thesis by (simp add: round_even_def)
  next
    case False
    with a have f: "\<lfloor>y\<rfloor> = m - 1" by (intro floor_unique) auto
    with a False show ?thesis by (auto simp: round_even_def)
  qed
qed

lemma round_even_tie: "y = of_int m + 1 / 2 \<Longrightarrow> round_even y = (if even m then m else m + 1)"
proof -
  assume y: "y = of_int m + 1 / 2"
  then have "\<lfloor>y\<rfloor> = m" by (intro floor_unique) auto
  with y show ?thesis by (simp add: round_even_def)
qed


lemma quantum_normal:
  assumes "pow2 e \<le> \<bar>x\<bar>" "\<bar>x\<bar> < pow2 (e + 1)" "- 1022 \<le> e"
  shows "quantum x = pow2 (e - 52)"
proof -
  have pos: "0 < \<bar>x\<bar>" using assms(1) pow2_pos [of e] by linarith
  have "\<lfloor>log 2 \<bar>x\<bar>\<rfloor> = e"
    using assms pos by (subst floor_log_eq_powr_iff) (simp_all add: pow2_powr)
  with assms(3) show ?thesis by (simp add: quantum_def)
qed


lemma pow2_less_iff: "pow2 a < pow2 b \<longleftrightarrow> a < b"
  by (simp add: pow2_powr)

lemma pow2_le_iff: "pow2 a \<le> pow2 b \<longleftrightarrow> a \<le> b"
  by (simp add: pow2_powr)

lemma pow2_nat: "0 \<le> k \<Longrightarrow> pow2 k = of_int (2 ^ nat k)"
  by (simp add: pow2_def)

lemma pow2_1024: "pow2 1024 = 2 ^ 1024"
  by (simp add: pow2_def)

lemma binade:
  assumes "x \<noteq> 0"
  shows "pow2 \<lfloor>log 2 \<bar>x\<bar>\<rfloor> \<le> \<bar>x\<bar> \<and> \<bar>x\<bar> < pow2 (\<lfloor>log 2 \<bar>x\<bar>\<rfloor> + 1)"
proof -
  have pos: "0 < \<bar>x\<bar>" using assms by simp
  have "\<lfloor>log 2 \<bar>x\<bar>\<rfloor> = \<lfloor>log 2 \<bar>x\<bar>\<rfloor>" ..
  then show ?thesis
    using pos by (subst (asm) floor_log_eq_powr_iff) (simp_all add: pow2_powr)
qed

lemma round_even_int: "round_even (of_int n) = n"
  by (rule round_even_unique) simp

lemma round_even_ge: "of_int n \<le> y \<Longrightarrow> n \<le> round_even y"
proof -
  assume "of_int n \<le> y"
  then have "n \<le> \<lfloor>y\<rfloor>" by (simp add: le_floor_iff)
  then show ?thesis by (simp add: round_even_def Let_def)
qed

lemma round_even_le: "y \<le> of_int n \<Longrightarrow> round_even y \<le> n"
proof -
  assume a: "y \<le> of_int n"
  have "\<lfloor>y\<rfloor> \<le> n" using a by (simp add: floor_le_iff) 
  moreover have "\<lfloor>y\<rfloor> < n" if "y - of_int \<lfloor>y\<rfloor> \<ge> 1 / 2"
  proof (rule ccontr)
    assume "\<not> \<lfloor>y\<rfloor> < n"
    with \<open>\<lfloor>y\<rfloor> \<le> n\<close> have "\<lfloor>y\<rfloor> = n" by simp
    with that a show False by simp
  qed
  ultimately show ?thesis by (auto simp: round_even_def Let_def)
qed

text \<open>Evaluation of one rounding from a certificate: the binade and the rounded quotient.\<close>

lemma round_double_normal:
  assumes "- 1022 \<le> e" "pow2 e \<le> \<bar>x\<bar>" "\<bar>x\<bar> < pow2 (e + 1)"
    "round_even (x / pow2 (e - 52)) = m" "\<bar>of_int m * pow2 (e - 52)\<bar> < 2 ^ 1024"
  shows "round_double x = Num (of_int m * pow2 (e - 52))"
proof -
  have "x \<noteq> 0" using assms(2) pow2_pos [of e] by auto
  moreover have "quantum x = pow2 (e - 52)" using assms(1,2,3) by (intro quantum_normal)
  ultimately show ?thesis using assms(4,5) by (simp add: round_double_def abs_less_iff)
qed


lemma round_double_overflow:
  assumes "2 ^ 1024 \<le> \<bar>x\<bar>"
  shows "round_double x = (if 0 < x then PInf else NInf)"
proof -
  have x0: "x \<noteq> 0" using assms by auto
  define e where "e = \<lfloor>log 2 \<bar>x\<bar>\<rfloor>"
  from binade [OF x0] have b: "pow2 e \<le> \<bar>x\<bar>" "\<bar>x\<bar> < pow2 (e + 1)" by (simp_all add: e_def)
  from assms b(2) have "pow2 1024 < pow2 (e + 1)" by (simp add: pow2_1024)
  then have e: "1024 \<le> e" by (simp add: pow2_less_iff)
  then have q: "quantum x = pow2 (e - 52)" using b by (intro quantum_normal) simp_all
  define q where "q = pow2 (e - 52)"
  have qpos: "0 < q" by (simp add: q_def pow2_pos)
  have split: "pow2 e = 2 ^ 52 * q"
    using pow2_add [of 52 "e - 52"] by (simp add: q_def pow2_def)
  have big: "2 ^ 1024 \<le> pow2 e" using e pow2_le_iff [of 1024 e] by (simp add: pow2_1024)
  show ?thesis
  proof (cases "0 < x")
    case True
    then have "2 ^ 52 * q \<le> x" using b(1) split by simp
    then have "of_int (2 ^ 52) \<le> x / q" using qpos by (simp add: pos_le_divide_eq)
    then have "2 ^ 52 \<le> round_even (x / q)" by (rule round_even_ge)
    then have "real_of_int (2 ^ 52) \<le> of_int (round_even (x / q))" by (simp only: of_int_le_iff)
    then have "(2::real) ^ 52 \<le> of_int (round_even (x / q))" by simp
    then have "2 ^ 52 * q \<le> of_int (round_even (x / q)) * q"
      using qpos by (intro mult_right_mono) simp_all
    with split big have "2 ^ 1024 \<le> of_int (round_even (x / q)) * q" by linarith
    with True x0 q show ?thesis by (simp add: round_double_def q_def)
  next
    case False
    then have "x \<le> - (2 ^ 52 * q)" using b(1) split x0 by simp
    then have "x / q \<le> of_int (- (2 ^ 52))" using qpos by (simp add: pos_divide_le_eq)
    then have "round_even (x / q) \<le> - (2 ^ 52)" by (rule round_even_le)
    then have "real_of_int (round_even (x / q)) \<le> of_int (- (2 ^ 52))" by (simp only: of_int_le_iff)
    then have "of_int (round_even (x / q)) \<le> - ((2::real) ^ 52)" by simp
    then have "of_int (round_even (x / q)) * q \<le> - (2 ^ 52) * q"
      using qpos by (intro mult_right_mono) simp_all
    with split big have le: "of_int (round_even (x / q)) * q \<le> - (2 ^ 1024)" by linarith
    then have "\<not> 2 ^ 1024 \<le> of_int (round_even (x / q)) * q"
      by (smt (verit) zero_less_power)
    with le False x0 q show ?thesis by (simp add: round_double_def q_def)
  qed
qed

text \<open>A double is rounded to itself.\<close>

lemma round_double_exact:
  assumes "x = of_int m * pow2 k" "\<bar>m\<bar> < 2 ^ 53" "- 1074 \<le> k" "\<bar>x\<bar> < 2 ^ 1024"
  shows "round_double x = Num x"
proof (cases "x = 0")
  case True
  then show ?thesis by (simp add: round_double_def)
next
  case False
  define e where "e = \<lfloor>log 2 \<bar>x\<bar>\<rfloor>"
  from binade [OF False] have b: "pow2 e \<le> \<bar>x\<bar>" "\<bar>x\<bar> < pow2 (e + 1)" by (simp_all add: e_def)
  have "\<bar>x\<bar> = of_int \<bar>m\<bar> * pow2 k" using assms(1) pow2_pos [of k] by (simp add: abs_mult)
  also have "\<dots> < 2 ^ 53 * pow2 k"
  proof -
    have "real_of_int \<bar>m\<bar> < real_of_int (2 ^ 53)" using assms(2) by (simp only: of_int_less_iff)
    then show ?thesis using pow2_pos [of k] by simp
  qed
  also have "\<dots> = pow2 (53 + k)" using pow2_add [of 53 k] by (simp add: pow2_def)
  finally have "pow2 e < pow2 (53 + k)" using b(1) by linarith
  then have ek: "e - 52 \<le> k" by (simp add: pow2_less_iff)
  define j where "j = max e (- 1022) - 52"
  have jk: "j \<le> k" using ek assms(3) by (simp add: j_def)
  have q: "quantum x = pow2 j" by (simp add: quantum_def j_def e_def)
  have "pow2 k = pow2 (k - j) * pow2 j" using pow2_add [of "k - j" j] by simp
  then have "x / pow2 j = of_int m * pow2 (k - j)" using assms(1) pow2_pos [of j] by simp
  also have "\<dots> = of_int (m * 2 ^ nat (k - j))" using jk by (simp add: pow2_nat)
  finally have quot: "x / pow2 j = of_int (m * 2 ^ nat (k - j))" .
  have "of_int (round_even (x / pow2 j)) * pow2 j = x"
    unfolding quot round_even_int using quot pow2_pos [of j] by (simp add: field_simps)
  with False q assms(4) show ?thesis by (simp add: round_double_def abs_less_iff)
qed

lemma round_double_dyadic:
  assumes "x = of_int m * pow2 k" "\<bar>m\<bar> < 2 ^ 53" "- 1074 \<le> k" "\<bar>x\<bar> < 2 ^ 1024"
  shows "round_double x = Num (of_int m * pow2 k)"
  using round_double_exact [OF assms] assms(1) by simp

lemma round_double_int: "\<bar>n\<bar> < 2 ^ 53 \<Longrightarrow> round_double (of_int n) = Num (of_int n)"
proof -
  assume n: "\<bar>n\<bar> < 2 ^ 53"
  then have "real_of_int \<bar>n\<bar> < real_of_int (2 ^ 53)" by (simp only: of_int_less_iff)
  then have "\<bar>real_of_int n\<bar> < 2 ^ 1024" by simp
  with n show ?thesis by (intro round_double_exact [of _ n 0]) (simp_all add: pow2_def)
qed

lemma round_double_0: "round_double 0 = Num 0"
  by (simp add: round_double_def)

lemma round_double_1: "round_double 1 = Num 1"
  using round_double_int [of 1] by simp

lemma round_double_numeral:
  "numeral w < (2::int) ^ 53 \<Longrightarrow> round_double (numeral w) = Num (numeral w)"
  using round_double_int [of "numeral w"] by simp


lemma round_double_sqrt:
  assumes "(pow2 e)\<^sup>2 \<le> n" "n < (pow2 (e + 1))\<^sup>2" "- 1022 \<le> e"
    "((of_int m - 1 / 2) * pow2 (e - 52))\<^sup>2 < n" "n < ((of_int m + 1 / 2) * pow2 (e - 52))\<^sup>2"
    "0 < m" "\<bar>of_int m * pow2 (e - 52)\<bar> < 2 ^ 1024"
  shows "round_double (sqrt n) = Num (of_int m * pow2 (e - 52))"
proof -
  define q where "q = pow2 (e - 52)"
  have qpos: "0 < q" by (simp add: q_def pow2_pos)
  have lo: "pow2 e \<le> sqrt n" using assms(1) by (rule real_le_rsqrt)
  have hi: "sqrt n < pow2 (e + 1)" using assms(2) pow2_pos [of "e + 1"] by (intro real_less_lsqrt) simp_all
  have npos: "0 \<le> sqrt n" using lo pow2_pos [of e] by linarith
  have a: "(of_int m - 1 / 2) * q < sqrt n" using assms(4) unfolding q_def by (rule real_less_rsqrt)
  have "0 \<le> (real_of_int m + 1 / 2) * q" using assms(6) qpos by simp
  then have b: "sqrt n < (of_int m + 1 / 2) * q" using assms(5) unfolding q_def by (intro real_less_lsqrt)
  from a b qpos have "of_int m - 1 / 2 < sqrt n / q" "sqrt n / q < of_int m + 1 / 2"
    by (simp_all add: pos_less_divide_eq pos_divide_less_eq)
  then have "\<bar>sqrt n / q - of_int m\<bar> < 1 / 2" by linarith
  then have r: "round_even (sqrt n / pow2 (e - 52)) = m" unfolding q_def by (rule round_even_unique)
  show ?thesis
    using assms(3) lo hi npos by (intro round_double_normal [OF _ _ _ r assms(7)]) simp_all
qed



lemma round_double_unit:
  assumes "0 \<le> x" "x \<le> 1"
  shows "\<exists>r. round_double x = Num r \<and> 0 \<le> r \<and> r \<le> 1"
proof (cases "x = 0")
  case True
  then show ?thesis by (simp add: round_double_def)
next
  case False
  then have xpos: "0 < x" using assms(1) by simp
  define e where "e = \<lfloor>log 2 \<bar>x\<bar>\<rfloor>"
  from binade [OF False] xpos have b: "pow2 e \<le> x" "x < pow2 (e + 1)" by (simp_all add: e_def)
  have "pow2 e \<le> pow2 0" using b(1) assms(2) by (simp add: pow2_def)
  then have e0: "e \<le> 0" by (simp add: pow2_le_iff)
  define j where "j = max e (- 1022) - 52"
  have j: "j \<le> - 52" using e0 by (simp add: j_def)
  have q: "quantum x = pow2 j" by (simp add: quantum_def j_def e_def)
  have qpos: "0 < pow2 j" by (rule pow2_pos)
  define N :: int where "N = 2 ^ nat (- j)"
  have "pow2 (- j) * pow2 j = 1" using pow2_add [of "- j" j] by (simp add: pow2_def)
  moreover have "pow2 (- j) = of_int N" using j by (simp add: pow2_nat N_def)
  ultimately have one: "of_int N * pow2 j = 1" by simp
  define m where "m = round_even (x / pow2 j)"
  have "x / pow2 j \<le> of_int N" using assms(2) one qpos by (simp add: pos_divide_le_eq)
  then have "m \<le> N" unfolding m_def by (rule round_even_le)
  then have "real_of_int m \<le> of_int N" by (simp only: of_int_le_iff)
  then have "of_int m * pow2 j \<le> of_int N * pow2 j" using qpos by (intro mult_right_mono) simp_all
  then have le: "of_int m * pow2 j \<le> 1" using one by simp
  have "of_int 0 \<le> x / pow2 j" using xpos qpos by simp
  then have "0 \<le> m" unfolding m_def by (rule round_even_ge)
  then have ge: "0 \<le> of_int m * pow2 j" using qpos by simp
  have "(1::real) < 2 ^ 1024" by simp
  with le ge False q show ?thesis by (simp add: round_double_def m_def Let_def)
qed

text \<open>The double that the literal \<open>0.7\<close> denotes.\<close>

lemma threshold_value: "SIMILARITY_THRESHOLD = Num (3152519739159347 / 2 ^ 52)"
proof -
  have r: "round_even (7 / 10 / pow2 (- 1 - 52)) = 6305039478318694"
    by (rule round_even_unique) (simp add: pow2_def)
  have "round_double (7 / 10) = Num (of_int 6305039478318694 * pow2 (- 1 - 52))"
    by (rule round_double_normal [OF _ _ _ r]) (simp_all add: pow2_def)
  then show ?thesis by (simp add: pow2_def SIMILARITY_THRESHOLD_def)
qed



section \<open>Properties of calculateSimilarity\<close>

lemma jmul_commute: "jmul a b = jmul b a"
  by (cases a; cases b) (simp_all add: mult.commute)

lemma accumulate_swap:
  "accumulate ys xs (d, n2, n1) =
     (case accumulate xs ys (d, n1, n2) of (D, N1, N2) \<Rightarrow> (D, N2, N1))"
proof (induction xs arbitrary: ys d n1 n2)
  case Nil
  then show ?case by (cases ys) simp_all
next
  case (Cons x xs)
  then show ?case by (cases ys) (simp_all add: jmul_commute)
qed

text \<open>
  C5. \<open>calculateSimilarity\<close> is symmetric: exchanging the two arguments gives the
  same value, for all arguments (arrays of any entries and lengths, and values that are
  not arrays). The function reads nothing but its arguments, so equal arguments give
  equal results.
\<close>

theorem calculateSimilarity_symmetric:
  "calculateSimilarity a b = calculateSimilarity b a"
proof (cases a; cases b)
  fix e1 e2 assume ab: "a = JArray e1" "b = JArray e2"
  obtain D N1 N2 where acc: "accumulate e1 e2 (Num 0, Num 0, Num 0) = (D, N1, N2)"
    by (cases "accumulate e1 e2 (Num 0, Num 0, Num 0)") auto
  then have "accumulate e2 e1 (Num 0, Num 0, Num 0) = (D, N2, N1)"
    using accumulate_swap [of e2 e1 "Num 0" "Num 0" "Num 0"] by simp
  with acc ab show ?thesis
    by (auto simp: calculateSimilarity_def Let_def jmul_commute [of "jsqrt N1"])
qed (simp_all add: calculateSimilarity_def)

lemma calculateSimilarity_length_mismatch:
  "length e1 \<noteq> length e2 \<Longrightarrow> calculateSimilarity (JArray e1) (JArray e2) = Num 0"
  by (simp add: calculateSimilarity_def)


text \<open>
  The steps of one evaluation, after the two tests on the arguments: the three sums,
  the two norms, their product, the cosine, and the rescaling.
\<close>

lemma jsqrt_nonneg: "0 \<le> a \<Longrightarrow> jsqrt (Num a) = round_double (sqrt a)"
  by simp

lemma jdiv_nonzero: "b \<noteq> 0 \<Longrightarrow> jdiv (Num a) (Num b) = round_double (a / b)"
  by simp

lemma calculateSimilarity_steps:
  assumes "length e1 = length e2"
    "accumulate e1 e2 (Num 0, Num 0, Num 0) = (dotProduct, n1, n2)"
    "jsqrt n1 = norm1" "jsqrt n2 = norm2" "\<not> jeq norm1 (Num 0)" "\<not> jeq norm2 (Num 0)"
    "jmul norm1 norm2 = product" "jdiv dotProduct product = similarity"
    "jadd similarity (Num 1) = shifted" "jdiv shifted (Num 2) = halved"
    "jmax (Num 0) halved = result"
  shows "calculateSimilarity (JArray e1) (JArray e2) = result"
  using assms by (simp add: calculateSimilarity_def)


text \<open>
  The cases in which the result is exactly 0: an argument that is not an array, arrays
  of different lengths, and an array whose norm is zero, as an array of zeros is.
\<close>

lemma accumulate_norms:
  "length xs = length ys \<Longrightarrow>
   snd (accumulate xs ys (d, n1, n2)) =
     (foldl (\<lambda>n x. jadd n (jmul x x)) n1 xs, foldl (\<lambda>n x. jadd n (jmul x x)) n2 ys)"
  by (induction xs ys arbitrary: d n1 n2 rule: list_induct2) simp_all

lemma sum_of_squares_zeros: "list_all (\<lambda>x. x = Num 0) z \<Longrightarrow> sum_of_squares z = Num 0"
proof -
  have "list_all (\<lambda>x. x = Num 0) z \<Longrightarrow> foldl (\<lambda>n x. jadd n (jmul x x)) (Num 0) z = Num 0"
    by (induction z) (simp_all add: round_double_0)
  then show "list_all (\<lambda>x. x = Num 0) z \<Longrightarrow> sum_of_squares z = Num 0"
    by (simp add: sum_of_squares_def)
qed

lemma calculateSimilarity_zero_cases:
  "(a = JOther \<or> b = JOther \<longrightarrow> calculateSimilarity a b = Num 0)
   \<and> (length e1 \<noteq> length e2 \<longrightarrow> calculateSimilarity (JArray e1) (JArray e2) = Num 0)
   \<and> (jeq (jsqrt (sum_of_squares e1)) (Num 0) \<or> jeq (jsqrt (sum_of_squares e2)) (Num 0)
        \<longrightarrow> calculateSimilarity (JArray e1) (JArray e2) = Num 0)
   \<and> (list_all (\<lambda>x. x = Num 0) z \<longrightarrow> jsqrt (sum_of_squares z) = Num 0)"
proof (intro conjI impI)
  assume "a = JOther \<or> b = JOther"
  then show "calculateSimilarity a b = Num 0"
    by (cases a; cases b) (simp_all add: calculateSimilarity_def)
next
  assume "length e1 \<noteq> length e2"
  then show "calculateSimilarity (JArray e1) (JArray e2) = Num 0"
    by (simp add: calculateSimilarity_def)
next
  assume z: "jeq (jsqrt (sum_of_squares e1)) (Num 0) \<or> jeq (jsqrt (sum_of_squares e2)) (Num 0)"
  show "calculateSimilarity (JArray e1) (JArray e2) = Num 0"
  proof (cases "length e1 = length e2")
    case True
    obtain D N1 N2 where acc: "accumulate e1 e2 (Num 0, Num 0, Num 0) = (D, N1, N2)"
      by (cases "accumulate e1 e2 (Num 0, Num 0, Num 0)") auto
    with accumulate_norms [OF True, of "Num 0" "Num 0" "Num 0"]
    have "N1 = sum_of_squares e1" "N2 = sum_of_squares e2" by (simp_all add: sum_of_squares_def)
    with z acc True show ?thesis by (auto simp: calculateSimilarity_def)
  next
    case False
    then show ?thesis by (simp add: calculateSimilarity_def)
  qed
next
  assume "list_all (\<lambda>x. x = Num 0) z"
  then show "jsqrt (sum_of_squares z) = Num 0"
    by (simp add: sum_of_squares_zeros round_double_0)
qed

subsection \<open>Evaluations in doubles\<close>

text \<open>
  Each evaluation below follows the code operation by operation; every rounding is
  justified by the binade of the exact result and the integer its quotient by the
  spacing rounds to.
\<close>

lemma identical_similarity:
  "calculateSimilarity (JArray [Num 1, Num 0, Num 0]) (JArray [Num 1, Num 0, Num 0]) = Num 1"
  by (simp add: calculateSimilarity_def round_double_0 round_double_1 round_double_numeral)



text \<open>
  The cosine of \<open>[1, 0]\<close> and \<open>[31938720, 73180801]\<close> is below 2/5 in exact
  arithmetic; in doubles the norm is rounded to 79846800, the cosine is the double 0.4
  and the similarity is the double 0.7.
\<close>

lemma rounded_boundary_exact:
  "(31938720::real) / sqrt (31938720\<^sup>2 + 73180801\<^sup>2) < 2 / 5"
proof -
  have "(79846800::real)\<^sup>2 < 31938720\<^sup>2 + 73180801\<^sup>2" by simp
  then have "79846800 < sqrt (31938720\<^sup>2 + 73180801\<^sup>2 :: real)" by (rule real_less_rsqrt)
  then show ?thesis by (simp add: divide_less_eq)
qed



text \<open>
  The doubles that the literals 0.77, 0.41, 2.31 and 1.23 denote. The second vector is
  three times the first up to rounding, and the product of the norms is rounded below
  the dot product.
\<close>

lemma decimal_literals:
  "round_double (77 / 100) = Num (1733885856537641 / 2 ^ 51)
   \<and> round_double (41 / 100) = Num (7385903388887613 / 2 ^ 54)
   \<and> round_double (231 / 100) = Num (5201657569612923 / 2 ^ 51)
   \<and> round_double (123 / 100) = Num (2769713770832855 / 2 ^ 51)"
proof -
  have d1: "round_double (77 / 100) = Num (1733885856537641 / 2 ^ 51)"
  proof -
    have r: "round_even ((77 / 100) / pow2 ((- 1) - 52)) = 6935543426150564"
      by (rule round_even_unique) (simp add: pow2_def)
    have "round_double (77 / 100) = Num (of_int 6935543426150564 * pow2 ((- 1) - 52))"
      by (rule round_double_normal [OF _ _ _ r]) (simp_all add: pow2_def)
    then show "round_double (77 / 100) = Num (1733885856537641 / 2 ^ 51)" by (simp add: pow2_def)
  qed
  have d2: "round_double (41 / 100) = Num (7385903388887613 / 2 ^ 54)"
  proof -
    have r: "round_even ((41 / 100) / pow2 ((- 2) - 52)) = 7385903388887613"
      by (rule round_even_unique) (simp add: pow2_def)
    have "round_double (41 / 100) = Num (of_int 7385903388887613 * pow2 ((- 2) - 52))"
      by (rule round_double_normal [OF _ _ _ r]) (simp_all add: pow2_def)
    then show "round_double (41 / 100) = Num (7385903388887613 / 2 ^ 54)" by (simp add: pow2_def)
  qed
  have d3: "round_double (231 / 100) = Num (5201657569612923 / 2 ^ 51)"
  proof -
    have r: "round_even ((231 / 100) / pow2 (1 - 52)) = 5201657569612923"
      by (rule round_even_unique) (simp add: pow2_def)
    have "round_double (231 / 100) = Num (of_int 5201657569612923 * pow2 (1 - 52))"
      by (rule round_double_normal [OF _ _ _ r]) (simp_all add: pow2_def)
    then show "round_double (231 / 100) = Num (5201657569612923 / 2 ^ 51)" by (simp add: pow2_def)
  qed
  have d4: "round_double (123 / 100) = Num (2769713770832855 / 2 ^ 51)"
  proof -
    have r: "round_even ((123 / 100) / pow2 (0 - 52)) = 5539427541665710"
      by (rule round_even_unique) (simp add: pow2_def)
    have "round_double (123 / 100) = Num (of_int 5539427541665710 * pow2 (0 - 52))"
      by (rule round_double_normal [OF _ _ _ r]) (simp_all add: pow2_def)
    then show "round_double (123 / 100) = Num (2769713770832855 / 2 ^ 51)" by (simp add: pow2_def)
  qed
  from d1 d2 d3 d4 show ?thesis by (simp only: simp_thms)
qed

lemma parallel_similarity:
  "calculateSimilarity (JArray [Num (1733885856537641 / 2 ^ 51), Num (7385903388887613 / 2 ^ 54)])
     (JArray [Num (5201657569612923 / 2 ^ 51), Num (2769713770832855 / 2 ^ 51)]) = Num (4503599627370497 / 2 ^ 52)"
proof -
  have s1: "jmul (Num (1733885856537641 / 2 ^ 51)) (Num (5201657569612923 / 2 ^ 51)) = Num (4005276328601951 / 2 ^ 51)"
    unfolding jmul.simps(1)
  proof -
    have r: "round_even (((1733885856537641 / 2 ^ 51) * (5201657569612923 / 2 ^ 51)) / pow2 (0 - 52)) = 8010552657203902"
      by (rule round_even_unique) (simp add: pow2_def)
    have "round_double ((1733885856537641 / 2 ^ 51) * (5201657569612923 / 2 ^ 51)) = Num (of_int 8010552657203902 * pow2 (0 - 52))"
      by (rule round_double_normal [OF _ _ _ r]) (simp_all add: pow2_def)
    then show "round_double ((1733885856537641 / 2 ^ 51) * (5201657569612923 / 2 ^ 51)) = Num (4005276328601951 / 2 ^ 51)" by (simp add: pow2_def)
  qed
  have s2: "jadd (Num 0) (Num (4005276328601951 / 2 ^ 51)) = Num (4005276328601951 / 2 ^ 51)"
    unfolding jadd.simps(1)
  proof -
    have "round_double (0 + (4005276328601951 / 2 ^ 51)) = Num (of_int 4005276328601951 * pow2 (- 51))"
      by (rule round_double_dyadic) (simp_all add: pow2_def)
    then show "round_double (0 + (4005276328601951 / 2 ^ 51)) = Num (4005276328601951 / 2 ^ 51)" by (simp add: pow2_def)
  qed
  have s3: "jmul (Num (1733885856537641 / 2 ^ 51)) (Num (1733885856537641 / 2 ^ 51)) = Num (2670184219067967 / 2 ^ 52)"
    unfolding jmul.simps(1)
  proof -
    have r: "round_even (((1733885856537641 / 2 ^ 51) * (1733885856537641 / 2 ^ 51)) / pow2 ((- 1) - 52)) = 5340368438135934"
      by (rule round_even_unique) (simp add: pow2_def)
    have "round_double ((1733885856537641 / 2 ^ 51) * (1733885856537641 / 2 ^ 51)) = Num (of_int 5340368438135934 * pow2 ((- 1) - 52))"
      by (rule round_double_normal [OF _ _ _ r]) (simp_all add: pow2_def)
    then show "round_double ((1733885856537641 / 2 ^ 51) * (1733885856537641 / 2 ^ 51)) = Num (2670184219067967 / 2 ^ 52)" by (simp add: pow2_def)
  qed
  have s4: "jadd (Num 0) (Num (2670184219067967 / 2 ^ 52)) = Num (2670184219067967 / 2 ^ 52)"
    unfolding jadd.simps(1)
  proof -
    have "round_double (0 + (2670184219067967 / 2 ^ 52)) = Num (of_int 2670184219067967 * pow2 (- 52))"
      by (rule round_double_dyadic) (simp_all add: pow2_def)
    then show "round_double (0 + (2670184219067967 / 2 ^ 52)) = Num (2670184219067967 / 2 ^ 52)" by (simp add: pow2_def)
  qed
  have s5: "jmul (Num (5201657569612923 / 2 ^ 51)) (Num (5201657569612923 / 2 ^ 51)) = Num (3003957246451463 / 2 ^ 49)"
    unfolding jmul.simps(1)
  proof -
    have r: "round_even (((5201657569612923 / 2 ^ 51) * (5201657569612923 / 2 ^ 51)) / pow2 (2 - 52)) = 6007914492902926"
      by (rule round_even_unique) (simp add: pow2_def)
    have "round_double ((5201657569612923 / 2 ^ 51) * (5201657569612923 / 2 ^ 51)) = Num (of_int 6007914492902926 * pow2 (2 - 52))"
      by (rule round_double_normal [OF _ _ _ r]) (simp_all add: pow2_def)
    then show "round_double ((5201657569612923 / 2 ^ 51) * (5201657569612923 / 2 ^ 51)) = Num (3003957246451463 / 2 ^ 49)" by (simp add: pow2_def)
  qed
  have s6: "jadd (Num 0) (Num (3003957246451463 / 2 ^ 49)) = Num (3003957246451463 / 2 ^ 49)"
    unfolding jadd.simps(1)
  proof -
    have "round_double (0 + (3003957246451463 / 2 ^ 49)) = Num (of_int 3003957246451463 * pow2 (- 49))"
      by (rule round_double_dyadic) (simp_all add: pow2_def)
    then show "round_double (0 + (3003957246451463 / 2 ^ 49)) = Num (3003957246451463 / 2 ^ 49)" by (simp add: pow2_def)
  qed
  have s7: "jmul (Num (7385903388887613 / 2 ^ 54)) (Num (2769713770832855 / 2 ^ 51)) = Num (2271165292082941 / 2 ^ 52)"
    unfolding jmul.simps(1)
  proof -
    have r: "round_even (((7385903388887613 / 2 ^ 54) * (2769713770832855 / 2 ^ 51)) / pow2 ((- 1) - 52)) = 4542330584165882"
      by (rule round_even_unique) (simp add: pow2_def)
    have "round_double ((7385903388887613 / 2 ^ 54) * (2769713770832855 / 2 ^ 51)) = Num (of_int 4542330584165882 * pow2 ((- 1) - 52))"
      by (rule round_double_normal [OF _ _ _ r]) (simp_all add: pow2_def)
    then show "round_double ((7385903388887613 / 2 ^ 54) * (2769713770832855 / 2 ^ 51)) = Num (2271165292082941 / 2 ^ 52)" by (simp add: pow2_def)
  qed
  have s8: "jadd (Num (4005276328601951 / 2 ^ 51)) (Num (2271165292082941 / 2 ^ 52)) = Num (2570429487321711 / 2 ^ 50)"
    unfolding jadd.simps(1)
  proof -
    have r: "round_even (((4005276328601951 / 2 ^ 51) + (2271165292082941 / 2 ^ 52)) / pow2 (1 - 52)) = 5140858974643422"
      using round_even_tie [of "((4005276328601951 / 2 ^ 51) + (2271165292082941 / 2 ^ 52)) / pow2 (1 - 52)" 5140858974643421] by (simp add: pow2_def)
    have "round_double ((4005276328601951 / 2 ^ 51) + (2271165292082941 / 2 ^ 52)) = Num (of_int 5140858974643422 * pow2 (1 - 52))"
      by (rule round_double_normal [OF _ _ _ r]) (simp_all add: pow2_def)
    then show "round_double ((4005276328601951 / 2 ^ 51) + (2271165292082941 / 2 ^ 52)) = Num (2570429487321711 / 2 ^ 50)" by (simp add: pow2_def)
  qed
  have s9: "jmul (Num (7385903388887613 / 2 ^ 54)) (Num (7385903388887613 / 2 ^ 54)) = Num (3028220389443921 / 2 ^ 54)"
    unfolding jmul.simps(1)
  proof -
    have r: "round_even (((7385903388887613 / 2 ^ 54) * (7385903388887613 / 2 ^ 54)) / pow2 ((- 3) - 52)) = 6056440778887842"
      by (rule round_even_unique) (simp add: pow2_def)
    have "round_double ((7385903388887613 / 2 ^ 54) * (7385903388887613 / 2 ^ 54)) = Num (of_int 6056440778887842 * pow2 ((- 3) - 52))"
      by (rule round_double_normal [OF _ _ _ r]) (simp_all add: pow2_def)
    then show "round_double ((7385903388887613 / 2 ^ 54) * (7385903388887613 / 2 ^ 54)) = Num (3028220389443921 / 2 ^ 54)" by (simp add: pow2_def)
  qed
  have s10: "jadd (Num (2670184219067967 / 2 ^ 52)) (Num (3028220389443921 / 2 ^ 54)) = Num (3427239316428947 / 2 ^ 52)"
    unfolding jadd.simps(1)
  proof -
    have r: "round_even (((2670184219067967 / 2 ^ 52) + (3028220389443921 / 2 ^ 54)) / pow2 ((- 1) - 52)) = 6854478632857894"
      using round_even_tie [of "((2670184219067967 / 2 ^ 52) + (3028220389443921 / 2 ^ 54)) / pow2 ((- 1) - 52)" 6854478632857894] by (simp add: pow2_def)
    have "round_double ((2670184219067967 / 2 ^ 52) + (3028220389443921 / 2 ^ 54)) = Num (of_int 6854478632857894 * pow2 ((- 1) - 52))"
      by (rule round_double_normal [OF _ _ _ r]) (simp_all add: pow2_def)
    then show "round_double ((2670184219067967 / 2 ^ 52) + (3028220389443921 / 2 ^ 54)) = Num (3427239316428947 / 2 ^ 52)" by (simp add: pow2_def)
  qed
  have s11: "jmul (Num (2769713770832855 / 2 ^ 51)) (Num (2769713770832855 / 2 ^ 51)) = Num (6813495876248823 / 2 ^ 52)"
    unfolding jmul.simps(1)
  proof -
    have r: "round_even (((2769713770832855 / 2 ^ 51) * (2769713770832855 / 2 ^ 51)) / pow2 (0 - 52)) = 6813495876248823"
      by (rule round_even_unique) (simp add: pow2_def)
    have "round_double ((2769713770832855 / 2 ^ 51) * (2769713770832855 / 2 ^ 51)) = Num (of_int 6813495876248823 * pow2 (0 - 52))"
      by (rule round_double_normal [OF _ _ _ r]) (simp_all add: pow2_def)
    then show "round_double ((2769713770832855 / 2 ^ 51) * (2769713770832855 / 2 ^ 51)) = Num (6813495876248823 / 2 ^ 52)" by (simp add: pow2_def)
  qed
  have s12: "jadd (Num (3003957246451463 / 2 ^ 49)) (Num (6813495876248823 / 2 ^ 52)) = Num (1927822115491283 / 2 ^ 48)"
    unfolding jadd.simps(1)
  proof -
    have r: "round_even (((3003957246451463 / 2 ^ 49) + (6813495876248823 / 2 ^ 52)) / pow2 (2 - 52)) = 7711288461965132"
      by (rule round_even_unique) (simp add: pow2_def)
    have "round_double ((3003957246451463 / 2 ^ 49) + (6813495876248823 / 2 ^ 52)) = Num (of_int 7711288461965132 * pow2 (2 - 52))"
      by (rule round_double_normal [OF _ _ _ r]) (simp_all add: pow2_def)
    then show "round_double ((3003957246451463 / 2 ^ 49) + (6813495876248823 / 2 ^ 52)) = Num (1927822115491283 / 2 ^ 48)" by (simp add: pow2_def)
  qed
  have acc: "accumulate [Num (1733885856537641 / 2 ^ 51), Num (7385903388887613 / 2 ^ 54)] [Num (5201657569612923 / 2 ^ 51), Num (2769713770832855 / 2 ^ 51)] (Num 0, Num 0, Num 0) = (Num (2570429487321711 / 2 ^ 50), Num (3427239316428947 / 2 ^ 52), Num (1927822115491283 / 2 ^ 48))"
    unfolding accumulate.simps s1 s2 s3 s4 s5 s6 s7 s8 s9 s10 s11 s12 by (rule refl)
  have s13: "jsqrt (Num (3427239316428947 / 2 ^ 52)) = Num (3928729273999281 / 2 ^ 52)"
  proof -
    have "round_double (sqrt (3427239316428947 / 2 ^ 52)) = Num (of_int 7857458547998562 * pow2 ((- 1) - 52))"
      by (rule round_double_sqrt) (simp_all add: pow2_def power2_eq_square)
    then have "round_double (sqrt (3427239316428947 / 2 ^ 52)) = Num (3928729273999281 / 2 ^ 52)" by (simp add: pow2_def)
    moreover have "jsqrt (Num (3427239316428947 / 2 ^ 52)) = round_double (sqrt (3427239316428947 / 2 ^ 52))" by (rule jsqrt_nonneg) simp
    ultimately show ?thesis by (simp only:)
  qed
  have s14: "jsqrt (Num (1927822115491283 / 2 ^ 48)) = Num (2946546955499461 / 2 ^ 50)"
  proof -
    have "round_double (sqrt (1927822115491283 / 2 ^ 48)) = Num (of_int 5893093910998922 * pow2 (1 - 52))"
      by (rule round_double_sqrt) (simp_all add: pow2_def power2_eq_square)
    then have "round_double (sqrt (1927822115491283 / 2 ^ 48)) = Num (2946546955499461 / 2 ^ 50)" by (simp add: pow2_def)
    moreover have "jsqrt (Num (1927822115491283 / 2 ^ 48)) = round_double (sqrt (1927822115491283 / 2 ^ 48))" by (rule jsqrt_nonneg) simp
    ultimately show ?thesis by (simp only:)
  qed
  have s15: "jmul (Num (3928729273999281 / 2 ^ 52)) (Num (2946546955499461 / 2 ^ 50)) = Num (1285214743660855 / 2 ^ 49)"
    unfolding jmul.simps(1)
  proof -
    have r: "round_even (((3928729273999281 / 2 ^ 52) * (2946546955499461 / 2 ^ 50)) / pow2 (1 - 52)) = 5140858974643420"
      by (rule round_even_unique) (simp add: pow2_def)
    have "round_double ((3928729273999281 / 2 ^ 52) * (2946546955499461 / 2 ^ 50)) = Num (of_int 5140858974643420 * pow2 (1 - 52))"
      by (rule round_double_normal [OF _ _ _ r]) (simp_all add: pow2_def)
    then show "round_double ((3928729273999281 / 2 ^ 52) * (2946546955499461 / 2 ^ 50)) = Num (1285214743660855 / 2 ^ 49)" by (simp add: pow2_def)
  qed
  have s16: "jdiv (Num (2570429487321711 / 2 ^ 50)) (Num (1285214743660855 / 2 ^ 49)) = Num (2251799813685249 / 2 ^ 51)"
  proof -
    have r: "round_even (((2570429487321711 / 2 ^ 50) / (1285214743660855 / 2 ^ 49)) / pow2 (0 - 52)) = 4503599627370498"
      by (rule round_even_unique) (simp add: pow2_def)
    have "round_double ((2570429487321711 / 2 ^ 50) / (1285214743660855 / 2 ^ 49)) = Num (of_int 4503599627370498 * pow2 (0 - 52))"
      by (rule round_double_normal [OF _ _ _ r]) (simp_all add: pow2_def)
    then have "round_double ((2570429487321711 / 2 ^ 50) / (1285214743660855 / 2 ^ 49)) = Num (2251799813685249 / 2 ^ 51)" by (simp add: pow2_def)
    moreover have "jdiv (Num (2570429487321711 / 2 ^ 50)) (Num (1285214743660855 / 2 ^ 49)) = round_double ((2570429487321711 / 2 ^ 50) / (1285214743660855 / 2 ^ 49))" by (rule jdiv_nonzero) simp
    ultimately show ?thesis by (simp only:)
  qed
  have s17: "jadd (Num (2251799813685249 / 2 ^ 51)) (Num 1) = Num (4503599627370497 / 2 ^ 51)"
    unfolding jadd.simps(1)
  proof -
    have "round_double ((2251799813685249 / 2 ^ 51) + 1) = Num (of_int 4503599627370497 * pow2 (- 51))"
      by (rule round_double_dyadic) (simp_all add: pow2_def)
    then show "round_double ((2251799813685249 / 2 ^ 51) + 1) = Num (4503599627370497 / 2 ^ 51)" by (simp add: pow2_def)
  qed
  have s18: "jdiv (Num (4503599627370497 / 2 ^ 51)) (Num 2) = Num (4503599627370497 / 2 ^ 52)"
  proof -
    have "round_double ((4503599627370497 / 2 ^ 51) / 2) = Num (of_int 4503599627370497 * pow2 (- 52))"
      by (rule round_double_dyadic) (simp_all add: pow2_def)
    then have "round_double ((4503599627370497 / 2 ^ 51) / 2) = Num (4503599627370497 / 2 ^ 52)" by (simp add: pow2_def)
    moreover have "jdiv (Num (4503599627370497 / 2 ^ 51)) (Num 2) = round_double ((4503599627370497 / 2 ^ 51) / 2)" by (rule jdiv_nonzero) simp
    ultimately show ?thesis by (simp only:)
  qed
  show ?thesis
    by (rule calculateSimilarity_steps [OF _ acc s13 s14 _ _ s15 s16 s17 s18]) simp_all
qed

text \<open>
  A vector whose squares overflow, and one whose squares underflow: \<open>2 ^ 600\<close> is
  about \<open>4.1e180\<close>, \<open>2 ^ (- 600)\<close> about \<open>2.4e-181\<close>, and both are doubles.
\<close>

lemma squares_overflow:
  assumes "2 ^ 512 \<le> x"
  shows "calculateSimilarity (JArray [Num x]) (JArray [Num x]) = NaN"
proof -
  have "(2::real) ^ 512 * 2 ^ 512 \<le> x * x" using assms by (intro mult_mono) simp_all
  then have "(2::real) ^ 1024 \<le> \<bar>x * x\<bar>" by simp
  moreover have "0 < x * x" using assms by (smt (verit) mult_pos_pos zero_less_power)
  ultimately have "round_double (x * x) = PInf" by (simp add: round_double_overflow)
  then show ?thesis by (simp add: calculateSimilarity_def round_double_0)
qed

lemma overflow_similarity:
  "calculateSimilarity (JArray [Num (2 ^ 600)]) (JArray [Num (2 ^ 600)]) = NaN"
  by (rule squares_overflow) simp


text \<open>
  C4. The documentation of \<open>calculateSimilarity\<close> promises a score between 0 and 1
  (line 122) and the code rescales to that range (line 154), but it only bounds the
  result from below, with \<open>Math.max(0, ...)\<close>. On the doubles nearest to
  \<open>[0.77, 0.41]\<close> and \<open>[2.31, 1.23]\<close> it returns \<open>1 + 2 ^ (- 52)\<close>, which is
  above 1, and on \<open>[2 ^ 600]\<close> against itself the squares overflow and it returns
  \<open>NaN\<close>. The cases in which the claim expects exactly 0 are as it says.
\<close>

theorem calculateSimilarity_out_of_range:
  "calculateSimilarity (JArray [Num (1733885856537641 / 2 ^ 51), Num (7385903388887613 / 2 ^ 54)])
     (JArray [Num (5201657569612923 / 2 ^ 51), Num (2769713770832855 / 2 ^ 51)])
     = Num (4503599627370497 / 2 ^ 52)
   \<and> (1::real) < 4503599627370497 / 2 ^ 52
   \<and> calculateSimilarity (JArray [Num (2 ^ 600)]) (JArray [Num (2 ^ 600)]) = NaN"
  using parallel_similarity overflow_similarity by simp






section \<open>Properties of the fallback fingerprint\<close>

lemma sample_index_less:
  assumes "i < 128" "0 < len"
  shows "sample_index i len < len"
proof -
  have "real i / 128 * real len < 1 * real len"
    using assms by (intro mult_strict_right_mono) simp_all
  then have "\<lfloor>real i / 128 * real len\<rfloor> < int len"
    by (simp add: floor_less_iff)
  moreover have "0 \<le> \<lfloor>real i / 128 * real len\<rfloor>" by simp
  ultimately show ?thesis unfolding sample_index_def by linarith
qed

text \<open>The quotient of two numbers, the first between 0 and the second, is between 0 and 1.\<close>

lemma quotient_unit:
  assumes "0 \<le> a" "a \<le> b" "0 < b"
  shows "unit_entry (jdiv (Num a) (Num b))"
proof -
  have "0 \<le> a / b" "a / b \<le> 1" using assms by simp_all
  from round_double_unit [OF this]
  obtain r where "round_double (a / b) = Num r" "0 \<le> r" "r \<le> 1" by auto
  with assms(3) show ?thesis by (simp add: unit_entry_def)
qed

lemma sample_unit: "index < length buf \<Longrightarrow> unit_entry (sample buf index)"
proof -
  assume "index < length buf"
  have "unat (buf ! index) < 2 ^ 8" using unsigned_less [of "buf ! index", where ?'a = nat] by simp
  then have "unat (buf ! index) \<le> 255" by simp
  then have "real (unat (buf ! index)) \<le> real 255" by (rule of_nat_mono)
  then have le: "real (unat (buf ! index)) \<le> 255" by simp
  have ge: "0 \<le> real (unat (buf ! index))" by (rule of_nat_0_le_iff)
  have "unit_entry (jdiv (Num (real (unat (buf ! index)))) (Num 255))"
    using ge le by (rule quotient_unit) simp
  then show ?thesis
    using \<open>index < length buf\<close> by (simp only: sample_def if_True)
qed

lemma features_length: "length (generateSimpleImageFeatures (Some buf)) = 129"
  by (simp add: generateSimpleImageFeatures_def)

lemma features_unit:
  assumes "buf \<noteq> []"
  shows "list_all unit_entry (generateSimpleImageFeatures (Some buf))"
proof -
  have "real (length buf mod 1000) \<le> 1000"
    using mod_less_divisor [of 1000 "length buf"] by linarith
  then have first: "unit_entry (jdiv (Num (real (length buf mod 1000))) (Num 1000))"
    by (intro quotient_unit) simp_all
  have "unit_entry (sample buf (sample_index i (length buf)))" if "i < 128" for i
    using that assms by (intro sample_unit sample_index_less) simp_all
  then have "list_all (\<lambda>i. unit_entry (sample buf (sample_index i (length buf)))) [0..<128]"
    by (simp add: list_all_iff)
  with first show ?thesis
    by (simp only: generateSimpleImageFeatures_def option.case list.pred_inject list_all_iff
        set_map ball_simps) simp
qed

lemma features_empty: "generateSimpleImageFeatures (Some []) = Num 0 # replicate 128 NaN"
proof -
  have "map (\<lambda>i. sample [] (sample_index i 0)) [0..<128] = replicate (length [0..<128::nat]) NaN"
    unfolding sample_def sample_index_def by (simp add: map_replicate_const)
  then show ?thesis by (simp add: generateSimpleImageFeatures_def round_double_0)
qed

text \<open>
  C10, as stated, fails on the empty buffer: every sample reads index 0 of a buffer of
  length 0, which is \<open>undefined\<close>, and the entry is \<open>NaN\<close>.
\<close>

theorem generateSimpleImageFeatures_empty_counterexample:
  "generateSimpleImageFeatures (Some []) ! 1 = NaN"
  by (simp add: features_empty)

text \<open>
  C10, amended. For every buffer the normal path returns exactly 129 entries, and for
  every buffer that is not empty each entry is a number between 0 and 1; the failure
  path returns 128 zeros; and \<open>calculateSimilarity\<close> between a vector of the normal
  path and any array of length 128 is 0.
\<close>

theorem generateSimpleImageFeatures_shape:
  "length (generateSimpleImageFeatures (Some buf)) = 129
   \<and> (buf \<noteq> [] \<longrightarrow> list_all unit_entry (generateSimpleImageFeatures (Some buf)))
   \<and> generateSimpleImageFeatures None = replicate 128 (Num 0)
   \<and> (length w = 128 \<longrightarrow>
        calculateSimilarity (JArray (generateSimpleImageFeatures (Some buf))) (JArray w) = Num 0)"
  by (simp add: features_length features_unit calculateSimilarity_length_mismatch)
     (simp add: generateSimpleImageFeatures_def)

theorem generateSimpleImageFeatures_shape_witness:
  "[7, 255] \<noteq> ([] :: buffer)
   \<and> generateSimpleImageFeatures (Some [7, 255]) ! 65 = Num 1
   \<and> list_all unit_entry (generateSimpleImageFeatures (Some [7, 255]))
   \<and> length (replicate 128 (Num 1)) = 128
   \<and> calculateSimilarity (JArray (generateSimpleImageFeatures (Some [7, 255]))) (JArray (replicate 128 (Num 1))) = Num 0"
  using generateSimpleImageFeatures_shape [of "[7, 255]" "replicate 128 (Num 1)"]
  by (simp add: generateSimpleImageFeatures_def sample_def sample_index_def round_double_1)

section \<open>Properties of processImageForMatching\<close>

text \<open>
  C7. When the download fails, the \<open>catch\<close> block does not reach the fallback: it
  raises a ReferenceError, which goes to the caller.
\<close>

theorem processImageForMatching_download_failure:
  "fst (processImageForMatching offline_env False ''http://unreachable.invalid/a.jpg'')
   = Inl (ReferenceError ''buffer is not defined'')"
  by (simp add: processImageForMatching_def offline_env_def catch_block_def)

section \<open>Properties of compareTwoFaces\<close>

text \<open>
  C9. Once the temporary directory is there, \<open>compareTwoFaces\<close> maps the answer of
  the oracle to a confidence: \<open>match = true\<close> gives 95 with match true,
  \<open>match = false\<close> gives 30 with match false, and a failed download or a failed call
  gives the result with success false, match false and confidence 0, not an error.
\<close>

theorem compareTwoFaces_mapping:
  "temp_dir_ok env \<Longrightarrow>
   (download_ok env image1Url \<and> download_ok env image2Url
      \<and> face_match env image1Url image2Url = PostReturns (Some True)
    \<longrightarrow> compareTwoFaces env image1Url image2Url
          = Inr \<lparr>fr_success = True, fr_match = Some True, fr_confidence = 95\<rparr>)
   \<and> (download_ok env image1Url \<and> download_ok env image2Url
      \<and> face_match env image1Url image2Url = PostReturns (Some False)
    \<longrightarrow> compareTwoFaces env image1Url image2Url
          = Inr \<lparr>fr_success = True, fr_match = Some False, fr_confidence = 30\<rparr>)
   \<and> (\<not> download_ok env image1Url \<or> \<not> download_ok env image2Url
      \<or> face_match env image1Url image2Url = PostFails
    \<longrightarrow> compareTwoFaces env image1Url image2Url
          = Inr \<lparr>fr_success = False, fr_match = Some False, fr_confidence = 0\<rparr>)"
  by (auto simp: compareTwoFaces_def face_failure_def)

theorem compareTwoFaces_mapping_witness:
  "temp_dir_ok agreeing_oracle \<and> download_ok agreeing_oracle ''u1'' \<and> download_ok agreeing_oracle ''u2''
   \<and> face_match agreeing_oracle ''u1'' ''u2'' = PostReturns (Some True)
   \<and> compareTwoFaces agreeing_oracle ''u1'' ''u2''
        = Inr \<lparr>fr_success = True, fr_match = Some True, fr_confidence = 95\<rparr>
   \<and> face_match denying_oracle ''u1'' ''u2'' = PostReturns (Some False)
   \<and> compareTwoFaces denying_oracle ''u1'' ''u2''
        = Inr \<lparr>fr_success = True, fr_match = Some False, fr_confidence = 30\<rparr>
   \<and> face_match failing_oracle ''u1'' ''u2'' = PostFails
   \<and> compareTwoFaces failing_oracle ''u1'' ''u2''
        = Inr \<lparr>fr_success = False, fr_match = Some False, fr_confidence = 0\<rparr>"
  using compareTwoFaces_mapping [of agreeing_oracle "''u1''" "''u2''"]
    compareTwoFaces_mapping [of denying_oracle "''u1''" "''u2''"]
    compareTwoFaces_mapping [of failing_oracle "''u1''" "''u2''"]
  by (simp add: agreeing_oracle_def denying_oracle_def failing_oracle_def)

section \<open>Properties of the comparison loops of findMatches\<close>















lemma best_A_B: "bestSimilarity_of reportA reportB = Num 1"
  by (simp add: bestSimilarity_of_def reportA_def reportB_def image_of_def identical_similarity)

lemma best_A_C: "bestSimilarity_of reportA reportC = Num 1"
  by (simp add: bestSimilarity_of_def reportA_def reportC_def image_of_def identical_similarity)





section \<open>Properties of the match records\<close>

lemmas io_defs = bind_io_def return_io_def throw_io_def try_catch_def prisma_call_def
  parentReport_findUnique_def finderReport_findUnique_def parentReport_findMany_def
  finderReport_findMany_def matchedCase_findFirst_def matchedCase_create_def matchedCase_update_def
  sendNotification_def

subsection \<open>Counting the rows of a pair\<close>

lemma count_pair_pairs:
  "count_pair p f ms = count_list (map pair_of ms) (p, f)"
  by (induction ms) (auto simp: count_pair_def same_pair_def pair_of_def)

lemma find_None_count: "find (same_pair p f) ms = None \<longleftrightarrow> count_pair p f ms = 0"
  by (induction ms) (auto simp: count_pair_def)

lemma distinct_count_list: "distinct xs \<longleftrightarrow> (\<forall>x. count_list xs x \<le> 1)"
proof (induction xs)
  case Nil
  then show ?case by simp
next
  case (Cons a xs)
  show ?case
  proof
    assume d: "distinct (a # xs)"
    then have "count_list xs a = 0" by (simp add: count_list_0_iff)
    with d Cons show "\<forall>x. count_list (a # xs) x \<le> 1" by auto
  next
    assume c: "\<forall>x. count_list (a # xs) x \<le> 1"
    then have "count_list (a # xs) a \<le> 1" by blast
    then have "a \<notin> set xs" by (simp add: count_list_0_iff [symmetric])
    moreover have "\<forall>x. count_list xs x \<le> 1"
    proof
      fix x from c have "count_list (a # xs) x \<le> 1" by blast
      then show "count_list xs x \<le> 1" by (simp split: if_splits)
    qed
    ultimately show "distinct (a # xs)" using Cons by simp
  qed
qed

lemma pairs_unique_count: "pairs_unique ms \<longleftrightarrow> (\<forall>p f. count_pair p f ms \<le> 1)"
  by (simp add: pairs_unique_def distinct_count_list count_pair_pairs)

lemma no_second_record_refl: "no_second_record ms ms"
  by (simp add: no_second_record_def)

lemma no_second_record_trans:
  "no_second_record a b \<Longrightarrow> no_second_record b c \<Longrightarrow> no_second_record a c"
  unfolding no_second_record_def by (metis zero_neq_one)

lemma no_second_record_unique:
  "no_second_record ms ms' \<Longrightarrow> pairs_unique ms \<Longrightarrow> pairs_unique ms'"
  unfolding no_second_record_def pairs_unique_count by (metis le_refl)

lemma no_second_record_mono:
  "no_second_record ms ms' \<Longrightarrow> count_pair p f ms \<le> count_pair p f ms'"
  unfolding no_second_record_def by (metis le_refl zero_le)

lemma extends_refl: "extends w w"
  by (simp add: extends_def no_second_record_refl)

lemma extends_trans: "extends a b \<Longrightarrow> extends b c \<Longrightarrow> extends a c"
  unfolding extends_def using no_second_record_trans by auto

lemma effect_extends:
  assumes "effect p f w w'"
  shows "extends w w'"
proof -
  have "count_pair q g (matchedCases w') = count_pair q g (matchedCases w)
        \<or> (count_pair q g (matchedCases w) = 0 \<and> count_pair q g (matchedCases w') = 1)" for q g
  proof (cases "map pair_of (matchedCases w') = map pair_of (matchedCases w)")
    case True
    then show ?thesis by (simp add: count_pair_pairs)
  next
    case False
    with assms have none: "count_pair p f (matchedCases w) = 0"
      and app: "map pair_of (matchedCases w') = map pair_of (matchedCases w) @ [(p, f)]"
      by (simp_all add: effect_def find_None_count)
    show ?thesis
    proof (cases "(q, g) = (p, f)")
      case True
      with none app show ?thesis by (simp add: count_pair_pairs)
    next
      case False
      with app show ?thesis by (auto simp: count_pair_pairs)
    qed
  qed
  with assms show ?thesis by (simp add: extends_def effect_def no_second_record_def)
qed

lemma canonical_pairs:
  "canonical w \<longleftrightarrow>
     (\<forall>(p, f)\<in>set (map pair_of (matchedCases w)).
        p \<in> set (map report_id (parentReports w)) \<and> f \<in> set (map report_id (finderReports w)))"
  by (auto simp: canonical_def list_all_iff pair_of_def)

lemma effect_canonical:
  assumes "effect p f w w'" "canonical w"
    "p \<in> set (map report_id (parentReports w))" "f \<in> set (map report_id (finderReports w))"
  shows "canonical w'"
proof -
  from assms(1) consider
      (same) "map pair_of (matchedCases w') = map pair_of (matchedCases w)"
    | (new) "map pair_of (matchedCases w') = map pair_of (matchedCases w) @ [(p, f)]"
    unfolding effect_def by blast
  then have "set (map pair_of (matchedCases w')) \<subseteq> insert (p, f) (set (map pair_of (matchedCases w)))"
  proof cases
    case same
    show ?thesis unfolding same by blast
  next
    case new
    show ?thesis unfolding new by simp
  qed
  moreover from assms(1) have "parentReports w' = parentReports w" "finderReports w' = finderReports w"
    by (simp_all add: effect_def)
  ultimately show ?thesis
    using assms(2-4) unfolding canonical_pairs by fastforce
qed

subsection \<open>The steps\<close>

lemma persist_candidate_effect:
  "effect p f w (snd (persist_candidate p f pr fr c ms w))"
  by (auto simp: effect_def persist_candidate_def io_defs Let_def pair_of_def
      split: list.splits option.splits if_splits)

lemma upsert_match_effect:
  "effect p f w (snd (upsert_match p f c w))"
  by (auto simp: effect_def upsert_match_def io_defs Let_def pair_of_def comp_def
      split: list.splits option.splits if_splits)

lemma notify_both_keeps:
  "parentReports (snd (notify_both pr fr m w)) = parentReports w
   \<and> finderReports (snd (notify_both pr fr m w)) = finderReports w
   \<and> map pair_of (matchedCases (snd (notify_both pr fr m w))) = map pair_of (matchedCases w)"
  by (auto simp: notify_both_def io_defs Let_def pair_of_def comp_def
      split: list.splits option.splits if_splits)

lemma effect_then_keeps:
  "effect p f w w1 \<Longrightarrow> parentReports w2 = parentReports w1 \<Longrightarrow> finderReports w2 = finderReports w1
   \<Longrightarrow> map pair_of (matchedCases w2) = map pair_of (matchedCases w1) \<Longrightarrow> effect p f w w2"
  by (auto simp: effect_def)

lemma effect_refl: "effect p f w w"
  by (simp add: effect_def)

lemma match_pair_effect:
  "effect (report_id pr) (report_id fr) w (snd (match_pair env minC pr fr ms w))"
proof (cases "bm_matched (compareReportImages env (images pr) (images fr) minC)")
  case False
  then show ?thesis by (simp add: match_pair_def Let_def return_io_def effect_refl)
next
  case True
  define c where "c = bm_confidence (compareReportImages env (images pr) (images fr) minC)"
  obtain r1 w1 where u: "upsert_match (report_id pr) (report_id fr) c w = (r1, w1)"
    by (cases "upsert_match (report_id pr) (report_id fr) c w") auto
  with upsert_match_effect [of "report_id pr" "report_id fr" w c]
  have e1: "effect (report_id pr) (report_id fr) w w1" by simp
  show ?thesis
  proof (cases r1)
    case (Inl e)
    with True u e1 show ?thesis by (simp add: match_pair_def Let_def bind_io_def c_def)
  next
    case (Inr m)
    obtain r2 w2 where n: "notify_both pr fr m w1 = (r2, w2)"
      by (cases "notify_both pr fr m w1") auto
    with notify_both_keeps [of pr fr m w1] e1
    have "effect (report_id pr) (report_id fr) w w2" by (auto intro: effect_then_keeps)
    moreover have "snd (match_pair env minC pr fr ms w) = w2"
      using True u Inr n
      by (cases r2) (simp_all add: match_pair_def Let_def bind_io_def c_def return_io_def)
    ultimately show ?thesis by simp
  qed
qed

lemma match_candidate_effect:
  "effect (fst (stored_pair rid rt t)) (snd (stored_pair rid rt t)) w
     (snd (match_candidate rid rt s t ms w))"
  using persist_candidate_effect
  by (auto simp: match_candidate_def stored_pair_def return_io_def effect_refl Let_def)

subsection \<open>The loops: any invariant of the steps is one of the loop\<close>

lemma match_loop_invariant:
  assumes step: "\<And>t ms w. t \<in> set targets \<Longrightarrow> I w \<Longrightarrow> I (snd (match_candidate rid rt s t ms w))"
  shows "I w \<Longrightarrow> I (snd (match_loop rid rt s targets ms w))"
  using step
proof (induction targets arbitrary: ms w)
  case Nil
  then show ?case by (simp add: return_io_def)
next
  case (Cons t targets)
  obtain r1 w1 where c: "match_candidate rid rt s t ms w = (r1, w1)"
    by (cases "match_candidate rid rt s t ms w") auto
  with Cons.prems(1) Cons.prems(2) [of t w ms] have I1: "I w1" by simp
  show ?case
  proof (cases r1)
    case (Inl e)
    with c I1 show ?thesis by (simp add: bind_io_def)
  next
    case (Inr ms')
    have "I (snd (match_loop rid rt s targets ms' w1))"
      using I1 Cons.prems(2) by (intro Cons.IH) auto
    with c Inr show ?thesis by (simp add: bind_io_def)
  qed
qed

lemma finder_loop_invariant:
  assumes step: "\<And>fr ms w. fr \<in> set frs \<Longrightarrow> I w \<Longrightarrow> I (snd (match_pair env minC pr fr ms w))"
  shows "I w \<Longrightarrow> I (snd (finder_loop env minC pr frs ms w))"
  using step
proof (induction frs arbitrary: ms w)
  case Nil
  then show ?case by (simp add: return_io_def)
next
  case (Cons fr frs)
  show ?case
  proof (cases "length (images fr) = 0")
    case True
    have "I (snd (finder_loop env minC pr frs ms w))"
      using Cons.prems by (intro Cons.IH) auto
    with True show ?thesis by simp
  next
    case False
    obtain r1 w1 where c: "match_pair env minC pr fr ms w = (r1, w1)"
      by (cases "match_pair env minC pr fr ms w") auto
    with Cons.prems(1) Cons.prems(2) [of fr w ms] have I1: "I w1" by simp
    show ?thesis
    proof (cases r1)
      case (Inl e)
      with c I1 False show ?thesis by (simp add: bind_io_def)
    next
      case (Inr ms')
      have "I (snd (finder_loop env minC pr frs ms' w1))"
        using I1 Cons.prems(2) by (intro Cons.IH) auto
      with c Inr False show ?thesis by (simp add: bind_io_def)
    qed
  qed
qed

lemma parent_loop_invariant:
  assumes step: "\<And>pr ms w. pr \<in> set prs \<Longrightarrow> I w \<Longrightarrow> I (snd (match_pair env minC pr fr ms w))"
  shows "I w \<Longrightarrow> I (snd (parent_loop env minC fr prs ms w))"
  using step
proof (induction prs arbitrary: ms w)
  case Nil
  then show ?case by (simp add: return_io_def)
next
  case (Cons pr prs)
  show ?case
  proof (cases "length (images pr) = 0")
    case True
    have "I (snd (parent_loop env minC fr prs ms w))"
      using Cons.prems by (intro Cons.IH) auto
    with True show ?thesis by simp
  next
    case False
    obtain r1 w1 where c: "match_pair env minC pr fr ms w = (r1, w1)"
      by (cases "match_pair env minC pr fr ms w") auto
    with Cons.prems(1) Cons.prems(2) [of pr w ms] have I1: "I w1" by simp
    show ?thesis
    proof (cases r1)
      case (Inl e)
      with c I1 False show ?thesis by (simp add: bind_io_def)
    next
      case (Inr ms')
      have "I (snd (parent_loop env minC fr prs ms' w1))"
        using I1 Cons.prems(2) by (intro Cons.IH) auto
      with c Inr False show ?thesis by (simp add: bind_io_def)
    qed
  qed
qed

section \<open>Every accept path keeps at most one row per pair\<close>

lemma lawful_refl: "lawful w w"
  by (simp add: lawful_def extends_refl)

lemma lawful_trans: "lawful a b \<Longrightarrow> lawful b c \<Longrightarrow> lawful a c"
  unfolding lawful_def using extends_trans by blast

lemma effect_lawful:
  "effect p f w w' \<Longrightarrow> valid_pair (p, f) w \<Longrightarrow> lawful w w'"
  unfolding lawful_def valid_pair_def using effect_extends effect_canonical by auto

lemma lawful_valid_pair: "lawful w w' \<Longrightarrow> valid_pair pf w' = valid_pair pf w"
  by (simp add: lawful_def extends_def valid_pair_def)

lemma lawful_step:
  "lawful w w1 \<Longrightarrow> effect p f w1 w2 \<Longrightarrow> valid_pair (p, f) w \<Longrightarrow> lawful w w2"
  using effect_lawful lawful_trans lawful_valid_pair by blast

lemma same_tables_lawful: "same_tables w w' \<Longrightarrow> lawful w w'"
  by (simp add: same_tables_def lawful_def extends_def canonical_def no_second_record_def)

lemma same_tables_valid_pair: "same_tables w w' \<Longrightarrow> valid_pair pf w' = valid_pair pf w"
  by (simp add: same_tables_def valid_pair_def)

lemma find_report_id: "find (\<lambda>r. report_id r = rid) rs = Some s \<Longrightarrow> report_id s = rid \<and> s \<in> set rs"
  by (auto simp: find_Some_iff)

lemma match_loop_lawful:
  assumes "\<forall>t\<in>set targets. valid_pair (stored_pair rid rt t) w" "lawful w0 w"
  shows "lawful w0 (snd (match_loop rid rt s targets ms w))"
proof (rule match_loop_invariant [where I = "\<lambda>w'. lawful w0 w'"])
  fix t ms w1 assume t: "t \<in> set targets" and l: "lawful w0 w1"
  have "valid_pair (stored_pair rid rt t) w0"
    using assms t lawful_valid_pair by blast
  then have "valid_pair (fst (stored_pair rid rt t), snd (stored_pair rid rt t)) w0" by simp
  with l match_candidate_effect [of rid rt t w1 s ms]
  show "lawful w0 (snd (match_candidate rid rt s t ms w1))"
    by (rule lawful_step)
qed (rule assms)

text \<open>A run of findMatches fails before the loop, or is the loop on the candidates.\<close>

lemma findMatches_cases:
  assumes "findMatches rid rt w = (r, w')"
  shows "(same_tables w w' \<and> (\<exists>e. r = Inl e))
       \<or> (\<exists>s w2. source_of rid rt w = Some s \<and> same_tables w w2
              \<and> match_loop rid rt s (candidates rid rt w) [] w2 = (r, w'))"
  using assms
  by (auto simp: findMatches_def source_of_def candidates_def same_tables_def io_defs
      split: if_splits list.splits option.splits)

lemma source_of_valid:
  assumes "source_of rid rt w = Some s" "t \<in> set (candidates rid rt w)"
  shows "valid_pair (stored_pair rid rt t) w"
  using assms find_report_id [of rid _ s]
  by (auto simp: source_of_def candidates_def valid_pair_def stored_pair_def split: if_splits)

lemma findMatches_lawful: "lawful w (snd (findMatches rid rt w))"
proof -
  obtain r w' where run: "findMatches rid rt w = (r, w')" by (cases "findMatches rid rt w") auto
  from findMatches_cases [OF run] have "lawful w w'"
  proof (elim disjE conjE exE)
    assume "same_tables w w'" then show ?thesis by (rule same_tables_lawful)
  next
    fix s w2
    assume s: "source_of rid rt w = Some s" and st: "same_tables w w2"
      and loop: "match_loop rid rt s (candidates rid rt w) [] w2 = (r, w')"
    have "\<forall>t\<in>set (candidates rid rt w). valid_pair (stored_pair rid rt t) w2"
      using source_of_valid [OF s] same_tables_valid_pair [OF st] by simp
    from match_loop_lawful [OF this same_tables_lawful [OF st], of s "[]"] loop
    show ?thesis by simp
  qed
  with run show ?thesis by simp
qed

lemma finder_loop_lawful:
  assumes "\<And>fr. fr \<in> set frs \<Longrightarrow> valid_pair (report_id pr, report_id fr) w"
    and "lawful w0 w"
  shows "lawful w0 (snd (finder_loop env minC pr frs ms w))"
proof (rule finder_loop_invariant [where I = "\<lambda>w'. lawful w0 w'"])
  fix fr ms w1 assume t: "fr \<in> set frs" and l: "lawful w0 w1"
  have "valid_pair (report_id pr, report_id fr) w0"
    using assms t lawful_valid_pair by blast
  with l match_pair_effect [of pr fr w1 env minC ms]
  show "lawful w0 (snd (match_pair env minC pr fr ms w1))"
    by (rule lawful_step)
qed (rule assms)

lemma parent_loop_lawful:
  assumes "\<And>pr. pr \<in> set prs \<Longrightarrow> valid_pair (report_id pr, report_id fr) w"
    and "lawful w0 w"
  shows "lawful w0 (snd (parent_loop env minC fr prs ms w))"
proof (rule parent_loop_invariant [where I = "\<lambda>w'. lawful w0 w'"])
  fix pr ms w1 assume t: "pr \<in> set prs" and l: "lawful w0 w1"
  have "valid_pair (report_id pr, report_id fr) w0"
    using assms t lawful_valid_pair by blast
  with l match_pair_effect [of pr fr w1 env minC ms]
  show "lawful w0 (snd (match_pair env minC pr fr ms w1))"
    by (rule lawful_step)
qed (rule assms)

lemma prisma_call_alt:
  "prisma_call operation w =
     (if db_faults w \<noteq> [] \<and> hd (db_faults w) then (Inl PrismaError, advance w)
      else operation (advance w))"
proof (cases "db_faults w")
  case Nil
  then have "advance w = w" by (cases w) (simp add: advance_def)
  with Nil show ?thesis by (simp add: prisma_call_def)
next
  case (Cons fault rest)
  then show ?thesis by (simp add: prisma_call_def advance_def)
qed

lemma advance_fields [simp]:
  "parentReports (advance w) = parentReports w" "finderReports (advance w) = finderReports w"
  "matchedCases (advance w) = matchedCases w" "sent (advance w) = sent w"
  "notify_faults (advance w) = notify_faults w" "db_faults (advance w) = tl (db_faults w)"
  by (simp_all add: advance_def)

lemma same_tables_advance: "same_tables w (advance w)" "same_tables w (advance (advance w))"
  by (simp_all add: same_tables_def)

lemma findMatchesForParentReport_cases:
  assumes "findMatchesForParentReport env pid minC w = (r, w')"
  shows "same_tables w w'
       \<or> (\<exists>pr. find (\<lambda>r. report_id r = pid) (parentReports w) = Some pr
              \<and> w' = snd (finder_loop env minC pr (filter (\<lambda>r. status r = ACTIVE) (finderReports w)) []
                            (advance (advance w))))"
  using assms
  by (auto simp: findMatchesForParentReport_def same_tables_def bind_io_def return_io_def
        prisma_call_alt parentReport_findUnique_def finderReport_findMany_def
      split: if_splits option.splits prod.splits sum.splits)

lemma findMatchesForFinderReport_cases:
  assumes "findMatchesForFinderReport env fid minC w = (r, w')"
  shows "same_tables w w'
       \<or> (\<exists>fr. find (\<lambda>r. report_id r = fid) (finderReports w) = Some fr
              \<and> w' = snd (parent_loop env minC fr (filter (\<lambda>r. status r = ACTIVE) (parentReports w)) []
                            (advance (advance w))))"
  using assms
  by (auto simp: findMatchesForFinderReport_def same_tables_def bind_io_def return_io_def
        prisma_call_alt finderReport_findUnique_def parentReport_findMany_def
      split: if_splits option.splits prod.splits sum.splits)

lemma findMatchesForParentReport_lawful: "lawful w (snd (findMatchesForParentReport env pid minC w))"
proof -
  obtain r w' where run: "findMatchesForParentReport env pid minC w = (r, w')"
    by (cases "findMatchesForParentReport env pid minC w") auto
  from findMatchesForParentReport_cases [OF run] have "lawful w w'"
  proof (elim disjE conjE exE)
    assume "same_tables w w'" then show ?thesis by (rule same_tables_lawful)
  next
    fix pr
    define w2 where "w2 = advance (advance w)"
    have st: "same_tables w w2" by (simp add: w2_def same_tables_advance)
    assume s: "find (\<lambda>r. report_id r = pid) (parentReports w) = Some pr"
      and "w' = snd (finder_loop env minC pr (filter (\<lambda>r. status r = ACTIVE) (finderReports w)) []
                      (advance (advance w)))"
    then have loop: "w' = snd (finder_loop env minC pr (filter (\<lambda>r. status r = ACTIVE) (finderReports w)) [] w2)"
      by (simp add: w2_def)
    have "lawful w (snd (finder_loop env minC pr (filter (\<lambda>r. status r = ACTIVE) (finderReports w)) [] w2))"
    proof (rule finder_loop_lawful)
      fix fr assume "fr \<in> set (filter (\<lambda>r. status r = ACTIVE) (finderReports w))"
      then show "valid_pair (report_id pr, report_id fr) w2"
        unfolding same_tables_valid_pair [OF st]
        using find_report_id [OF s] by (auto simp: valid_pair_def)
    qed (rule same_tables_lawful [OF st])
    with loop show ?thesis by simp
  qed
  with run show ?thesis by simp
qed

lemma findMatchesForFinderReport_lawful: "lawful w (snd (findMatchesForFinderReport env fid minC w))"
proof -
  obtain r w' where run: "findMatchesForFinderReport env fid minC w = (r, w')"
    by (cases "findMatchesForFinderReport env fid minC w") auto
  from findMatchesForFinderReport_cases [OF run] have "lawful w w'"
  proof (elim disjE conjE exE)
    assume "same_tables w w'" then show ?thesis by (rule same_tables_lawful)
  next
    fix fr
    define w2 where "w2 = advance (advance w)"
    have st: "same_tables w w2" by (simp add: w2_def same_tables_advance)
    assume s: "find (\<lambda>r. report_id r = fid) (finderReports w) = Some fr"
      and "w' = snd (parent_loop env minC fr (filter (\<lambda>r. status r = ACTIVE) (parentReports w)) []
                      (advance (advance w)))"
    then have loop: "w' = snd (parent_loop env minC fr (filter (\<lambda>r. status r = ACTIVE) (parentReports w)) [] w2)"
      by (simp add: w2_def)
    have "lawful w (snd (parent_loop env minC fr (filter (\<lambda>r. status r = ACTIVE) (parentReports w)) [] w2))"
    proof (rule parent_loop_lawful)
      fix pr assume "pr \<in> set (filter (\<lambda>r. status r = ACTIVE) (parentReports w))"
      then show "valid_pair (report_id pr, report_id fr) w2"
        unfolding same_tables_valid_pair [OF st]
        using find_report_id [OF s] by (auto simp: valid_pair_def)
    qed (rule same_tables_lawful [OF st])
    with loop show ?thesis by simp
  qed
  with run show ?thesis by simp
qed

lemma compareSpecificReports_cases:
  assumes "compareSpecificReports env pid fid minC w = (r, w')"
  shows "same_tables w w'
       \<or> (\<exists>pr fr. find (\<lambda>r. report_id r = pid) (parentReports w) = Some pr
              \<and> find (\<lambda>r. report_id r = fid) (finderReports w) = Some fr
              \<and> w' = snd (upsert_match pid fid
                            (bm_confidence (compareReportImages env (images pr) (images fr) minC))
                            (advance (advance w))))"
  using assms
  by (auto simp: compareSpecificReports_def same_tables_def bind_io_def return_io_def prisma_call_alt
        parentReport_findUnique_def finderReport_findUnique_def Let_def
      split: if_splits option.splits prod.splits sum.splits)

lemma compareSpecificReports_lawful: "lawful w (snd (compareSpecificReports env pid fid minC w))"
proof -
  obtain r w' where run: "compareSpecificReports env pid fid minC w = (r, w')"
    by (cases "compareSpecificReports env pid fid minC w") auto
  from compareSpecificReports_cases [OF run] have "lawful w w'"
  proof (elim disjE conjE exE)
    assume "same_tables w w'" then show ?thesis by (rule same_tables_lawful)
  next
    fix pr fr :: report
    define w2 where "w2 = advance (advance w)"
    define c where "c = bm_confidence (compareReportImages env (images pr) (images fr) minC)"
    have st: "same_tables w w2" by (simp add: w2_def same_tables_advance)
    assume p: "find (\<lambda>r. report_id r = pid) (parentReports w) = Some pr"
      and f: "find (\<lambda>r. report_id r = fid) (finderReports w) = Some fr"
      and "w' = snd (upsert_match pid fid
                      (bm_confidence (compareReportImages env (images pr) (images fr) minC))
                      (advance (advance w)))"
    then have up: "w' = snd (upsert_match pid fid c w2)" by (simp add: w2_def c_def)
    have "valid_pair (pid, fid) w"
      using find_report_id [OF p] find_report_id [OF f] by (auto simp: valid_pair_def)
    with upsert_match_effect [of pid fid w2] up same_tables_lawful [OF st] 
    show ?thesis using lawful_step by fastforce
  qed
  with run show ?thesis by simp
qed

section \<open>Runs without faults, and running twice\<close>

lemma fault_free_advance: "db_faults w = [] \<Longrightarrow> advance w = w"
  by (cases w) (simp add: advance_def)

lemma prisma_call_no_fault: "db_faults w = [] \<Longrightarrow> prisma_call operation w = operation w"
  by (simp add: prisma_call_def)

lemma sendNotification_no_fault:
  "notify_faults w = [] \<Longrightarrow>
     sendNotification uid ty mid w =
       (Inr (), w\<lparr>sent := sent w @ [\<lparr>userId = uid, ntype = ty, matchId = mid\<rparr>]\<rparr>)"
  by (simp add: sendNotification_def)

lemma persist_candidate_existing:
  "fault_free w \<Longrightarrow> find (same_pair p f) (matchedCases w) = Some e \<Longrightarrow>
     persist_candidate p f pr fr c ms w = (Inr ms, w)"
  by (simp add: persist_candidate_def fault_free_def bind_io_def return_io_def
      matchedCase_findFirst_def prisma_call_no_fault)

lemma persist_candidate_new:
  "fault_free w \<Longrightarrow> find (same_pair p f) (matchedCases w) = None \<Longrightarrow>
     persist_candidate p f pr fr c ms w =
       (Inr (ms @ [new_row w p f c PENDING]),
        w\<lparr>matchedCases := matchedCases w @ [new_row w p f c PENDING],
          sent := sent w @
            [\<lparr>userId = Some (reporter pr), ntype = ''MATCH_FOUND'', matchId = fresh_id (matchedCases w)\<rparr>,
             \<lparr>userId = Some (reporter fr), ntype = ''MATCH_FOUND'', matchId = fresh_id (matchedCases w)\<rparr>,
             \<lparr>userId = None, ntype = ''ADMIN_ALERT'', matchId = fresh_id (matchedCases w)\<rparr>]\<rparr>)"
  by (simp add: persist_candidate_def fault_free_def bind_io_def return_io_def
      matchedCase_findFirst_def matchedCase_create_def prisma_call_no_fault
      sendNotification_no_fault new_row_def Let_def)

lemma match_candidate_rejected:
  "\<not> accepted s t \<Longrightarrow> match_candidate rid rt s t ms w = (Inr ms, w)"
  by (simp add: match_candidate_def accepted_def return_io_def Let_def)

lemma match_candidate_accepted:
  "accepted s t \<Longrightarrow>
     match_candidate rid rt s t ms =
       persist_candidate (fst (stored_pair rid rt t)) (snd (stored_pair rid rt t))
         (if rt = ''PARENT'' then s else t) (if rt = ''PARENT'' then t else s)
         (bestSimilarity_of s t) ms"
  by (simp add: match_candidate_def accepted_def stored_pair_def Let_def)

lemma find_Some_ex: "(\<exists>y. find P xs = Some y) \<longleftrightarrow> (\<exists>x\<in>set xs. P x)"
  using find_None_iff [of P xs] by auto

lemma present_append:
  "present pf w \<Longrightarrow> matchedCases w' = matchedCases w @ new \<Longrightarrow> present pf w'"
  by (auto simp: present_def find_None_iff)

text \<open>One candidate, no faults: the run goes on, rows are only appended, and an accepted
  candidate has a row afterwards.\<close>

lemma match_candidate_fault_free:
  assumes "fault_free w"
  shows "\<exists>ms1 w1. match_candidate rid rt s t ms w = (Inr ms1, w1) \<and> fault_free w1
           \<and> parentReports w1 = parentReports w \<and> finderReports w1 = finderReports w
           \<and> (\<exists>new. matchedCases w1 = matchedCases w @ new)
           \<and> (accepted s t \<longrightarrow> present (stored_pair rid rt t) w1)"
proof (cases "accepted s t")
  case False
  with assms show ?thesis by (simp add: match_candidate_rejected)
next
  case True
  have mc: "match_candidate rid rt s t ms =
       persist_candidate (fst (stored_pair rid rt t)) (snd (stored_pair rid rt t))
         (if rt = ''PARENT'' then s else t) (if rt = ''PARENT'' then t else s)
         (bestSimilarity_of s t) ms"
    using True by (rule match_candidate_accepted)
  show ?thesis
  proof (cases "find (same_pair (fst (stored_pair rid rt t)) (snd (stored_pair rid rt t))) (matchedCases w)")
    case None
    from persist_candidate_new [OF assms None] mc assms show ?thesis
      by (auto simp: fault_free_def present_def new_row_def same_pair_def find_Some_ex)
  next
    case (Some e)
    from persist_candidate_existing [OF assms Some] mc assms Some show ?thesis
      by (simp add: present_def)
  qed
qed

lemma match_loop_fault_free:
  assumes "fault_free w"
  shows "\<exists>ms' w'. match_loop rid rt s targets ms w = (Inr ms', w') \<and> fault_free w'
           \<and> parentReports w' = parentReports w \<and> finderReports w' = finderReports w
           \<and> (\<exists>new. matchedCases w' = matchedCases w @ new)
           \<and> (\<forall>t\<in>set targets. accepted s t \<longrightarrow> present (stored_pair rid rt t) w')"
  using assms
proof (induction targets arbitrary: ms w)
  case Nil
  then show ?case by (simp add: return_io_def)
next
  case (Cons t targets)
  from match_candidate_fault_free [OF Cons.prems, of rid rt s t ms]
  obtain ms1 w1 new1 where c: "match_candidate rid rt s t ms w = (Inr ms1, w1)" "fault_free w1"
    "parentReports w1 = parentReports w" "finderReports w1 = finderReports w"
    "matchedCases w1 = matchedCases w @ new1"
    "accepted s t \<longrightarrow> present (stored_pair rid rt t) w1" by auto
  from Cons.IH [OF c(2), of ms1]
  obtain ms' w' new2 where l: "match_loop rid rt s targets ms1 w1 = (Inr ms', w')" "fault_free w'"
    "parentReports w' = parentReports w1" "finderReports w' = finderReports w1"
    "matchedCases w' = matchedCases w1 @ new2"
    "\<forall>t\<in>set targets. accepted s t \<longrightarrow> present (stored_pair rid rt t) w'" by auto
  have "accepted s t \<longrightarrow> present (stored_pair rid rt t) w'"
    using c(6) l(5) present_append by blast
  moreover have "matchedCases w' = matchedCases w @ (new1 @ new2)" using c(5) l(5) by simp
  ultimately show ?case using c l by (auto simp: bind_io_def)
qed

text \<open>When every accepted candidate has its row, the loop changes nothing.\<close>

lemma match_loop_all_present:
  assumes "fault_free w" "\<forall>t\<in>set targets. accepted s t \<longrightarrow> present (stored_pair rid rt t) w"
  shows "match_loop rid rt s targets ms w = (Inr ms, w)"
  using assms
proof (induction targets)
  case Nil
  then show ?case by (simp add: return_io_def)
next
  case (Cons t targets)
  have "match_candidate rid rt s t ms w = (Inr ms, w)"
  proof (cases "accepted s t")
    case False
    then show ?thesis by (rule match_candidate_rejected)
  next
    case True
    with Cons.prems(2) obtain e where
      "find (same_pair (fst (stored_pair rid rt t)) (snd (stored_pair rid rt t))) (matchedCases w) = Some e"
      by (auto simp: present_def)
    from persist_candidate_existing [OF Cons.prems(1) this] match_candidate_accepted [OF True, of rid rt ms]
    show ?thesis by auto
  qed
  with Cons show ?case by (simp add: bind_io_def)
qed

lemma findMatches_fault_free:
  assumes "fault_free w"
  shows "findMatches rid rt w =
     (case source_of rid rt w of
        None \<Rightarrow> (fst (findMatches rid rt w), w)
      | Some s \<Rightarrow> match_loop rid rt s (candidates rid rt w) [] w)"
  using assms
  by (auto simp: findMatches_def source_of_def candidates_def fault_free_def bind_io_def throw_io_def
      parentReport_findUnique_def finderReport_findUnique_def parentReport_findMany_def
      finderReport_findMany_def prisma_call_no_fault split: option.splits)

lemma present_count: "present (p, f) w \<longleftrightarrow> count_pair p f (matchedCases w) \<ge> 1"
  using find_None_count [of p f "matchedCases w"] by (auto simp: present_def)

lemma findMatches_twice:
  assumes ff: "fault_free w"
  shows "snd (findMatches rid rt (snd (findMatches rid rt w))) = snd (findMatches rid rt w)
       \<and> (\<forall>s t. source_of rid rt w = Some s \<and> t \<in> set (candidates rid rt w) \<and> accepted s t \<longrightarrow>
            fst (findMatches rid rt (snd (findMatches rid rt w))) = Inr []
            \<and> count_pair (fst (stored_pair rid rt t)) (snd (stored_pair rid rt t))
                 (matchedCases (snd (findMatches rid rt w))) \<ge> 1)"
proof (cases "source_of rid rt w")
  case None
  from findMatches_fault_free [OF ff, of rid rt] None
  have 1: "snd (findMatches rid rt w) = w" by (metis option.simps(4) snd_conv)
  with None show ?thesis by simp
next
  case (Some s)
  from findMatches_fault_free [OF ff, of rid rt] Some
  have run1: "findMatches rid rt w = match_loop rid rt s (candidates rid rt w) [] w" by simp
  from match_loop_fault_free [OF ff, of rid rt s "candidates rid rt w" "[]"] run1
  obtain ms1 w1 where r1: "findMatches rid rt w = (Inr ms1, w1)" "fault_free w1"
    "parentReports w1 = parentReports w" "finderReports w1 = finderReports w"
    "\<forall>t\<in>set (candidates rid rt w). accepted s t \<longrightarrow> present (stored_pair rid rt t) w1" by auto
  have src: "source_of rid rt w1 = Some s" "candidates rid rt w1 = candidates rid rt w"
    using Some r1(3,4) by (auto simp: source_of_def candidates_def split: if_splits)
  from findMatches_fault_free [OF r1(2), of rid rt] src
  have "findMatches rid rt w1 = match_loop rid rt s (candidates rid rt w) [] w1" by simp
  also have "\<dots> = (Inr [], w1)" using r1(2,5) by (rule match_loop_all_present)
  finally have run2: "findMatches rid rt w1 = (Inr [], w1)" .
  have "count_pair (fst (stored_pair rid rt t)) (snd (stored_pair rid rt t)) (matchedCases w1) \<ge> 1"
    if "t \<in> set (candidates rid rt w)" "accepted s t" for t
    using r1(5) that present_count [of "fst (stored_pair rid rt t)" "snd (stored_pair rid rt t)" w1]
    by simp
  with run2 r1(1) Some show ?thesis by simp
qed

section \<open>C1: one row per pair\<close>

lemma lawful_facts:
  assumes "lawful w w'"
  shows "count_pair p f (matchedCases w') = count_pair p f (matchedCases w)
          \<or> (count_pair p f (matchedCases w) = 0 \<and> count_pair p f (matchedCases w') = 1)"
    and "pairs_unique (matchedCases w) \<longrightarrow> pairs_unique (matchedCases w')"
    and "canonical w \<longrightarrow> canonical w'"
    and "count_pair p f (matchedCases w) \<le> count_pair p f (matchedCases w')"
  using assms no_second_record_unique no_second_record_mono
  by (auto simp: lawful_def extends_def no_second_record_def)

lemma entry_points_lawful:
  assumes "w' \<in> {snd (findMatches reportId reportType w),
                 snd (findMatchesForParentReport env parentReportId minConfidence w),
                 snd (findMatchesForFinderReport env finderReportId minConfidence w),
                 snd (compareSpecificReports env parentReportId finderReportId minConfidence w)}"
  shows "lawful w w'"
  using assms findMatches_lawful findMatchesForParentReport_lawful
    findMatchesForFinderReport_lawful compareSpecificReports_lawful by auto

text \<open>
  C1. Let \<open>w'\<close> be the world after any one of the four accept paths has run from
  \<open>w\<close> (\<open>findMatches\<close> and the three handlers of the controller), whatever the
  arguments and whatever faults the environment injects. For every pair of identifiers,
  the number of rows of the pair is unchanged or goes from none to one: a row is never
  inserted for a pair that has one. Hence a table with at most one row per pair stays
  so, and a table in canonical order (parent report first, finder report second) stays
  so. When \<open>findMatches\<close> runs twice without faults from such a table, the second run
  inserts nothing and returns no match, and every accepted candidate has exactly one
  row, stored under the pair with the parent report first whichever side is the source.
\<close>

theorem one_record_per_pair:
  assumes "w' \<in> {snd (findMatches reportId reportType w),
                 snd (findMatchesForParentReport env parentReportId minConfidence w),
                 snd (findMatchesForFinderReport env finderReportId minConfidence w),
                 snd (compareSpecificReports env parentReportId finderReportId minConfidence w)}"
  shows "(count_pair p f (matchedCases w') = count_pair p f (matchedCases w)
           \<or> (count_pair p f (matchedCases w) = 0 \<and> count_pair p f (matchedCases w') = 1))
       \<and> (pairs_unique (matchedCases w) \<longrightarrow> pairs_unique (matchedCases w'))
       \<and> (canonical w \<longrightarrow> canonical w')
       \<and> (fault_free w \<and> pairs_unique (matchedCases w) \<and> source_of reportId reportType w = Some s
            \<and> t \<in> set (candidates reportId reportType w) \<and> accepted s t \<longrightarrow>
          snd (findMatches reportId reportType (snd (findMatches reportId reportType w)))
            = snd (findMatches reportId reportType w)
          \<and> fst (findMatches reportId reportType (snd (findMatches reportId reportType w))) = Inr []
          \<and> count_pair (fst (stored_pair reportId reportType t)) (snd (stored_pair reportId reportType t))
               (matchedCases (snd (findMatches reportId reportType
                                     (snd (findMatches reportId reportType w))))) = 1)"
proof -
  from assms have l: "lawful w w'" by (rule entry_points_lawful)
  have twice: "snd (findMatches reportId reportType (snd (findMatches reportId reportType w)))
            = snd (findMatches reportId reportType w)
          \<and> fst (findMatches reportId reportType (snd (findMatches reportId reportType w))) = Inr []
          \<and> count_pair (fst (stored_pair reportId reportType t)) (snd (stored_pair reportId reportType t))
               (matchedCases (snd (findMatches reportId reportType
                                     (snd (findMatches reportId reportType w))))) = 1"
    if ff: "fault_free w" and pu: "pairs_unique (matchedCases w)"
      and s: "source_of reportId reportType w = Some s"
      and t: "t \<in> set (candidates reportId reportType w)" and a: "accepted s t"
  proof -
    define w1 where "w1 = snd (findMatches reportId reportType w)"
    from findMatches_twice [OF ff, of reportId reportType] s t a
    have same: "snd (findMatches reportId reportType w1) = w1"
      and none: "fst (findMatches reportId reportType w1) = Inr []"
      and ge: "count_pair (fst (stored_pair reportId reportType t)) (snd (stored_pair reportId reportType t))
                 (matchedCases w1) \<ge> 1"
      unfolding w1_def by blast+
    have "pairs_unique (matchedCases w1)"
      using lawful_facts(2) [OF findMatches_lawful [of w reportId reportType]] pu
      by (simp add: w1_def)
    then have "count_pair (fst (stored_pair reportId reportType t)) (snd (stored_pair reportId reportType t))
                 (matchedCases w1) \<le> 1"
      by (simp add: pairs_unique_count)
    with ge same none show ?thesis unfolding w1_def by simp
  qed
  from lawful_facts(1-3) [OF l] twice show ?thesis by blast
qed

lemma pairs_after_world0:
  "map pair_of (matchedCases (snd (findMatches ''A'' ''PARENT'' world0))) = [(''A'', ''B''), (''A'', ''C'')]"
  by (simp add: findMatches_def io_defs world0_def match_candidate_def persist_candidate_def
      threshold_value best_A_B best_A_C Let_def pair_of_def same_pair_def)
     (simp add: reportA_def reportB_def reportC_def)

theorem one_record_per_pair_witness:
  "fault_free world0 \<and> pairs_unique (matchedCases world0) \<and> canonical world0
   \<and> source_of ''A'' ''PARENT'' world0 = Some reportA
   \<and> reportB \<in> set (candidates ''A'' ''PARENT'' world0) \<and> accepted reportA reportB
   \<and> map pair_of (matchedCases (snd (findMatches ''A'' ''PARENT'' world0))) = [(''A'', ''B''), (''A'', ''C'')]
   \<and> pairs_unique (matchedCases (snd (findMatches ''A'' ''PARENT'' world0)))
   \<and> canonical (snd (findMatches ''A'' ''PARENT'' world0))
   \<and> snd (findMatches ''A'' ''PARENT'' (snd (findMatches ''A'' ''PARENT'' world0)))
       = snd (findMatches ''A'' ''PARENT'' world0)
   \<and> count_pair ''A'' ''B''
       (matchedCases (snd (findMatches ''A'' ''PARENT'' (snd (findMatches ''A'' ''PARENT'' world0))))) = 1"
proof -
  have h: "snd (findMatches ''A'' ''PARENT'' world0)
           \<in> {snd (findMatches ''A'' ''PARENT'' world0),
              snd (findMatchesForParentReport agreeing_oracle ''A'' 85 world0),
              snd (findMatchesForFinderReport agreeing_oracle ''B'' 85 world0),
              snd (compareSpecificReports agreeing_oracle ''A'' ''B'' 85 world0)}" by simp
  have ff: "fault_free world0" by (simp add: fault_free_def world0_def)
  have pu: "pairs_unique (matchedCases world0)" by (simp add: pairs_unique_def world0_def)
  have ca: "canonical world0" by (simp add: canonical_def world0_def)
  have so: "source_of ''A'' ''PARENT'' world0 = Some reportA"
    by (simp add: source_of_def world0_def reportA_def)
  have cand: "reportB \<in> set (candidates ''A'' ''PARENT'' world0)"
    by (simp add: candidates_def world0_def reportB_def)
  have acc: "accepted reportA reportB"
    by (simp add: accepted_def best_A_B threshold_value)
  have sp: "stored_pair ''A'' ''PARENT'' reportB = (''A'', ''B'')"
    by (simp add: stored_pair_def reportB_def)
  note run = one_record_per_pair [OF h, of "''A''" "''B''" reportA reportB]
  from run ff pu so cand acc
  have tw: "snd (findMatches ''A'' ''PARENT'' (snd (findMatches ''A'' ''PARENT'' world0)))
             = snd (findMatches ''A'' ''PARENT'' world0)"
    "count_pair (fst (stored_pair ''A'' ''PARENT'' reportB)) (snd (stored_pair ''A'' ''PARENT'' reportB))
       (matchedCases (snd (findMatches ''A'' ''PARENT'' (snd (findMatches ''A'' ''PARENT'' world0))))) = 1"
    by blast+
  from run pu ca
  have inv: "pairs_unique (matchedCases (snd (findMatches ''A'' ''PARENT'' world0)))"
    "canonical (snd (findMatches ''A'' ''PARENT'' world0))" by blast+
  from tw(2) have one: "count_pair ''A'' ''B''
       (matchedCases (snd (findMatches ''A'' ''PARENT'' (snd (findMatches ''A'' ''PARENT'' world0))))) = 1"
    unfolding sp by (simp only: fst_conv snd_conv)
  from ff pu ca so cand acc pairs_after_world0 inv tw(1) one show ?thesis by blast
qed

section \<open>C2: the upsert step\<close>

lemma find_by_id:
  assumes "ids_unique ms" "e \<in> set ms"
  shows "find (\<lambda>m. mc_id m = mc_id e) ms = Some e"
  using assms
proof (induction ms)
  case Nil
  then show ?case by simp
next
  case (Cons a ms)
  then show ?case by (auto simp: ids_unique_def)
qed

lemma update_by_id:
  assumes "ids_unique ms" "e \<in> set ms"
  shows "map (\<lambda>m. if mc_id m = mc_id e then g m else m) ms = map (\<lambda>m. if m = e then g e else m) ms"
proof (rule map_cong [OF refl])
  fix m assume m: "m \<in> set ms"
  from assms(1) have "inj_on mc_id (set ms)" by (simp add: ids_unique_def distinct_map)
  with m assms(2) have "mc_id m = mc_id e \<longleftrightarrow> m = e" by (auto dest: inj_onD)
  then show "(if mc_id m = mc_id e then g m else m) = (if m = e then g e else m)" by auto
qed

lemma find_in_set: "find P xs = Some e \<Longrightarrow> e \<in> set xs \<and> P e"
  by (auto simp: find_Some_iff)

lemma upsert_match_existing:
  assumes "db_faults w = []" "ids_unique (matchedCases w)"
    "find (same_pair p f) (matchedCases w) = Some e"
  shows "upsert_match p f c w =
           (Inr (e\<lparr>matchConfidence := Num c, mc_status := MATCHED\<rparr>),
            w\<lparr>matchedCases :=
                map (\<lambda>m. if m = e then e\<lparr>matchConfidence := Num c, mc_status := MATCHED\<rparr> else m)
                    (matchedCases w)\<rparr>)"
proof -
  from assms(3) have e: "e \<in> set (matchedCases w)" by (auto dest: find_in_set)
  show ?thesis
    using assms find_by_id [OF assms(2) e]
      update_by_id [OF assms(2) e, of "\<lambda>m. m\<lparr>matchConfidence := Num c, mc_status := MATCHED\<rparr>"]
    by (simp add: upsert_match_def bind_io_def matchedCase_findFirst_def matchedCase_update_def
        prisma_call_no_fault)
qed

lemma upsert_match_new:
  assumes "db_faults w = []" "find (same_pair p f) (matchedCases w) = None"
  shows "upsert_match p f c w =
           (Inr (new_row w p f (Num c) MATCHED),
            w\<lparr>matchedCases := matchedCases w @ [new_row w p f (Num c) MATCHED]\<rparr>)"
  using assms
  by (simp add: upsert_match_def bind_io_def matchedCase_findFirst_def matchedCase_create_def
      prisma_call_no_fault new_row_def Let_def)

lemma fold_max_ge: "a \<le> fold max xs (a::nat)"
  by (induction xs arbitrary: a) (auto intro: order_trans [OF max.cobounded2])

lemma fold_max_mem: "x \<in> set xs \<Longrightarrow> x \<le> fold max xs (a::nat)"
proof (induction xs arbitrary: a)
  case Nil
  then show ?case by simp
next
  case (Cons y ys)
  show ?case
  proof (cases "x = y")
    case True
    have "y \<le> max y a" by simp
    also have "\<dots> \<le> fold max ys (max y a)" by (rule fold_max_ge)
    finally show ?thesis using True by simp
  next
    case False
    with Cons show ?thesis by simp
  qed
qed

lemma fresh_id_greater: "m \<in> set ms \<Longrightarrow> mc_id m < fresh_id ms"
  using fold_max_mem [of "mc_id m" "map mc_id ms" 0] by (simp add: fresh_id_def less_Suc_eq_le)

lemma ids_unique_new_row:
  assumes "ids_unique (matchedCases w)"
  shows "ids_unique (matchedCases w @ [new_row w p f c st])"
proof -
  have "fresh_id (matchedCases w) \<notin> mc_id ` set (matchedCases w)"
  proof
    assume "fresh_id (matchedCases w) \<in> mc_id ` set (matchedCases w)"
    then obtain m where m: "m \<in> set (matchedCases w)" "fresh_id (matchedCases w) = mc_id m" by auto
    from fresh_id_greater [OF m(1)] m(2) show False by simp
  qed
  with assms show ?thesis by (simp add: ids_unique_def new_row_def)
qed

lemma ids_unique_map:
  assumes "\<And>m. mc_id (g m) = mc_id m" "ids_unique ms"
  shows "ids_unique (map g ms)"
proof -
  have "map mc_id (map g ms) = map mc_id ms" using assms(1) by (induction ms) simp_all
  with assms(2) show ?thesis by (simp only: ids_unique_def)
qed

lemma stored_append:
  "stored p f c st w \<Longrightarrow> matchedCases w1 = matchedCases w @ new \<Longrightarrow> stored p f c st w1"
  by (auto simp: stored_def list_ex_iff)

lemma stored_map:
  assumes "stored p f c st w" "matchedCases w1 = map g (matchedCases w)"
    "\<And>m. m \<in> set (matchedCases w) \<Longrightarrow> same_pair p f m \<Longrightarrow>
       same_pair p f (g m) \<and> matchConfidence (g m) = matchConfidence m \<and> mc_status (g m) = mc_status m"
  shows "stored p f c st w1"
proof -
  from assms(1) obtain m where m: "m \<in> set (matchedCases w)" "same_pair p f m"
    "matchConfidence m = c" "mc_status m = st" by (auto simp: stored_def list_ex_iff)
  from assms(3) [OF m(1,2)] m(3,4)
  have "same_pair p f (g m) \<and> matchConfidence (g m) = c \<and> mc_status (g m) = st" by simp
  moreover have "g m \<in> set (matchedCases w1)" using m(1) assms(2) by simp
  ultimately show ?thesis by (auto simp: stored_def list_ex_iff)
qed

text \<open>The upsert when no database call fails.\<close>

lemma upsert_match_stored:
  assumes "db_faults w = []" "ids_unique (matchedCases w)"
  shows "\<exists>row w1. upsert_match p f c w = (Inr row, w1) \<and> db_faults w1 = []
           \<and> ids_unique (matchedCases w1) \<and> stored p f (Num c) MATCHED w1
           \<and> (\<forall>q g c' st. (q, g) \<noteq> (p, f) \<longrightarrow> stored q g c' st w \<longrightarrow> stored q g c' st w1)"
proof (cases "find (same_pair p f) (matchedCases w)")
  case None
  define w1 where "w1 = w\<lparr>matchedCases := matchedCases w @ [new_row w p f (Num c) MATCHED]\<rparr>"
  have run: "upsert_match p f c w = (Inr (new_row w p f (Num c) MATCHED), w1)"
    using upsert_match_new [OF assms(1) None] by (simp add: w1_def)
  have mc: "matchedCases w1 = matchedCases w @ [new_row w p f (Num c) MATCHED]" by (simp add: w1_def)
  have "stored p f (Num c) MATCHED w1"
    by (simp add: stored_def mc new_row_def same_pair_def)
  moreover have "ids_unique (matchedCases w1)" unfolding mc using assms(2) by (rule ids_unique_new_row)
  moreover have "stored q g c' st w1" if "stored q g c' st w" for q g c' st
    using that mc by (rule stored_append)
  moreover have "db_faults w1 = []" using assms(1) by (simp add: w1_def)
  ultimately show ?thesis using run by blast
next
  case (Some e)
  then have e: "e \<in> set (matchedCases w)" "same_pair p f e" by (auto dest: find_in_set)
  define e' where "e' = e\<lparr>matchConfidence := Num c, mc_status := MATCHED\<rparr>"
  define g where "g = (\<lambda>m. if m = e then e' else m)"
  define w1 where "w1 = w\<lparr>matchedCases := map g (matchedCases w)\<rparr>"
  have run: "upsert_match p f c w = (Inr e', w1)"
    using upsert_match_existing [OF assms Some] by (simp add: w1_def g_def e'_def)
  have mc: "matchedCases w1 = map g (matchedCases w)" by (simp add: w1_def)
  have "g e \<in> set (matchedCases w1)" using e(1) by (simp add: mc)
  moreover have "same_pair p f (g e) \<and> matchConfidence (g e) = Num c \<and> mc_status (g e) = MATCHED"
    using e(2) by (simp add: g_def e'_def same_pair_def)
  ultimately have here: "stored p f (Num c) MATCHED w1"
    unfolding stored_def list_ex_iff by blast
  have "mc_id (g m) = mc_id m" for m by (simp add: g_def e'_def)
  then have ids: "ids_unique (matchedCases w1)" unfolding mc using assms(2) by (rule ids_unique_map)
  have frame: "stored q h c' st w1" if "(q, h) \<noteq> (p, f)" "stored q h c' st w" for q h c' st
    using that(2) mc
  proof (rule stored_map)
    fix m assume "m \<in> set (matchedCases w)" "same_pair q h m"
    with that(1) e(2) have "m \<noteq> e" by (auto simp: same_pair_def)
    then show "same_pair q h (g m) \<and> matchConfidence (g m) = matchConfidence m \<and> mc_status (g m) = mc_status m"
      using \<open>same_pair q h m\<close> by (simp add: g_def)
  qed
  have "db_faults w1 = []" using assms(1) by (simp add: w1_def)
  with run here ids frame show ?thesis by blast
qed

text \<open>The notifications of the handlers: at most the flag of rows changes.\<close>

lemma notify_both_rows:
  assumes "db_faults w = []"
  shows "\<exists>w1. notify_both pr fr row w = (Inr (), w1) \<and> db_faults w1 = []
           \<and> (matchedCases w1 = matchedCases w
              \<or> matchedCases w1 =
                  map (\<lambda>m. if mc_id m = mc_id row then m\<lparr>notificationSent := True\<rparr> else m) (matchedCases w))"
  using assms
  by (auto simp: notify_both_def try_catch_def bind_io_def return_io_def sendNotification_def
      matchedCase_update_def prisma_call_no_fault Let_def split: list.splits option.splits)

lemma notify_both_stored:
  assumes "db_faults w = []"
  shows "\<exists>w1. notify_both pr fr row w = (Inr (), w1) \<and> db_faults w1 = []
           \<and> (ids_unique (matchedCases w) \<longrightarrow> ids_unique (matchedCases w1))
           \<and> (\<forall>q g c st. stored q g c st w \<longrightarrow> stored q g c st w1)"
proof -
  define h where "h = (\<lambda>m::matched_case. if mc_id m = mc_id row then m\<lparr>notificationSent := True\<rparr> else m)"
  from notify_both_rows [OF assms, of pr fr row]
  obtain w1 where n: "notify_both pr fr row w = (Inr (), w1)" "db_faults w1 = []"
    "matchedCases w1 = matchedCases w \<or> matchedCases w1 = map h (matchedCases w)"
    by (auto simp: h_def)
  have ids: "ids_unique (matchedCases w1)" if "ids_unique (matchedCases w)"
  proof -
    have "mc_id (h m) = mc_id m" for m by (simp add: h_def)
    then have "ids_unique (map h (matchedCases w))" using that by (rule ids_unique_map)
    with n(3) that show ?thesis by auto
  qed
  have keep: "stored q g c st w1" if s: "stored q g c st w" for q g c st
  proof -
    have "stored q g c st w1" if "matchedCases w1 = map h (matchedCases w)"
      using s that by (rule stored_map) (simp add: h_def same_pair_def)
    moreover have "stored q g c st w1" if "matchedCases w1 = matchedCases w"
      using s that by (simp add: stored_def)
    ultimately show ?thesis using n(3) by blast
  qed
  from n(1,2) ids keep show ?thesis by blast
qed

lemma match_pair_stored:
  assumes "db_faults w = []" "ids_unique (matchedCases w)"
  shows "\<exists>ms1 w1. match_pair env minC pr fr ms w = (Inr ms1, w1) \<and> db_faults w1 = []
           \<and> ids_unique (matchedCases w1)
           \<and> (\<forall>q g c st. (q, g) \<noteq> (report_id pr, report_id fr) \<longrightarrow> stored q g c st w \<longrightarrow> stored q g c st w1)
           \<and> (bm_matched (compareReportImages env (images pr) (images fr) minC)
                \<longrightarrow> stored (report_id pr) (report_id fr)
                      (Num (bm_confidence (compareReportImages env (images pr) (images fr) minC))) MATCHED w1)"
proof (cases "bm_matched (compareReportImages env (images pr) (images fr) minC)")
  case False
  with assms show ?thesis by (simp add: match_pair_def return_io_def)
next
  case True
  define c where "c = bm_confidence (compareReportImages env (images pr) (images fr) minC)"
  from upsert_match_stored [OF assms, of "report_id pr" "report_id fr" c]
  obtain row w1 where u: "upsert_match (report_id pr) (report_id fr) c w = (Inr row, w1)"
    "db_faults w1 = []" "ids_unique (matchedCases w1)"
    "stored (report_id pr) (report_id fr) (Num c) MATCHED w1"
    "\<forall>q g c' st. (q, g) \<noteq> (report_id pr, report_id fr) \<longrightarrow> stored q g c' st w \<longrightarrow> stored q g c' st w1"
    by blast
  from notify_both_stored [OF u(2), of pr fr row]
  obtain w2 where n: "notify_both pr fr row w1 = (Inr (), w2)" "db_faults w2 = []"
    "ids_unique (matchedCases w1) \<longrightarrow> ids_unique (matchedCases w2)"
    "\<forall>q g c st. stored q g c st w1 \<longrightarrow> stored q g c st w2" by blast
  have "match_pair env minC pr fr ms w = (Inr (ms @ [row]), w2)"
    using True u(1) n(1) by (simp add: match_pair_def bind_io_def return_io_def c_def)
  with u n show ?thesis unfolding c_def by blast
qed

lemma finder_loop_stored:
  assumes "db_faults w = []" "ids_unique (matchedCases w)" "distinct (map report_id frs)"
  shows "\<exists>ms' w'. finder_loop env minC pr frs ms w = (Inr ms', w') \<and> db_faults w' = []
           \<and> ids_unique (matchedCases w')
           \<and> (\<forall>q g c st. (\<forall>fr\<in>set frs. (q, g) \<noteq> (report_id pr, report_id fr))
                 \<longrightarrow> stored q g c st w \<longrightarrow> stored q g c st w')
           \<and> (\<forall>fr\<in>set frs. images fr \<noteq> []
                  \<and> bm_matched (compareReportImages env (images pr) (images fr) minC)
                \<longrightarrow> stored (report_id pr) (report_id fr)
                      (Num (bm_confidence (compareReportImages env (images pr) (images fr) minC))) MATCHED w')"
  using assms
proof (induction frs arbitrary: ms w)
  case Nil
  then show ?case by (simp add: return_io_def)
next
  case (Cons fr frs)
  from Cons.prems(3) have d: "distinct (map report_id frs)" "report_id fr \<notin> report_id ` set frs"
    by simp_all
  show ?case
  proof (cases "images fr = []")
    case True
    from Cons.IH [OF Cons.prems(1,2) d(1), of ms]
    obtain ms' w' where l: "finder_loop env minC pr frs ms w = (Inr ms', w')" "db_faults w' = []"
      "ids_unique (matchedCases w')"
      "\<forall>q g c st. (\<forall>fr\<in>set frs. (q, g) \<noteq> (report_id pr, report_id fr))
                 \<longrightarrow> stored q g c st w \<longrightarrow> stored q g c st w'"
      "\<forall>fr\<in>set frs. images fr \<noteq> []
                  \<and> bm_matched (compareReportImages env (images pr) (images fr) minC)
                \<longrightarrow> stored (report_id pr) (report_id fr)
                      (Num (bm_confidence (compareReportImages env (images pr) (images fr) minC))) MATCHED w'"
      by blast
    have "finder_loop env minC pr (fr # frs) ms w = (Inr ms', w')" using True l(1) by simp
    with l(2,3,4,5) True show ?thesis by auto
  next
    case False
    from match_pair_stored [OF Cons.prems(1,2), of env minC pr fr ms]
    obtain ms1 w1 where s: "match_pair env minC pr fr ms w = (Inr ms1, w1)" "db_faults w1 = []"
      "ids_unique (matchedCases w1)"
      "\<forall>q g c st. (q, g) \<noteq> (report_id pr, report_id fr) \<longrightarrow> stored q g c st w \<longrightarrow> stored q g c st w1"
      "bm_matched (compareReportImages env (images pr) (images fr) minC)
         \<longrightarrow> stored (report_id pr) (report_id fr)
               (Num (bm_confidence (compareReportImages env (images pr) (images fr) minC))) MATCHED w1"
      by blast
    from Cons.IH [OF s(2,3) d(1), of ms1]
    obtain ms' w' where l: "finder_loop env minC pr frs ms1 w1 = (Inr ms', w')" "db_faults w' = []"
      "ids_unique (matchedCases w')"
      "\<forall>q g c st. (\<forall>fr\<in>set frs. (q, g) \<noteq> (report_id pr, report_id fr))
                 \<longrightarrow> stored q g c st w1 \<longrightarrow> stored q g c st w'"
      "\<forall>fr\<in>set frs. images fr \<noteq> []
                  \<and> bm_matched (compareReportImages env (images pr) (images fr) minC)
                \<longrightarrow> stored (report_id pr) (report_id fr)
                      (Num (bm_confidence (compareReportImages env (images pr) (images fr) minC))) MATCHED w'"
      by blast
    have run: "finder_loop env minC pr (fr # frs) ms w = (Inr ms', w')"
      using False s(1) l(1) by (simp add: bind_io_def)
    have other: "\<forall>x\<in>set frs. (report_id pr, report_id fr) \<noteq> (report_id pr, report_id x)"
      using d(2) by auto
    have head: "bm_matched (compareReportImages env (images pr) (images fr) minC)
         \<longrightarrow> stored (report_id pr) (report_id fr)
               (Num (bm_confidence (compareReportImages env (images pr) (images fr) minC))) MATCHED w'"
      using s(5) l(4) other by blast
    have frame: "\<forall>q g c st. (\<forall>x\<in>set (fr # frs). (q, g) \<noteq> (report_id pr, report_id x))
                 \<longrightarrow> stored q g c st w \<longrightarrow> stored q g c st w'"
      using s(4) l(4) by simp
    from run l(2,3,5) head frame show ?thesis by auto
  qed
qed

lemma parent_loop_stored:
  assumes "db_faults w = []" "ids_unique (matchedCases w)" "distinct (map report_id prs)"
  shows "\<exists>ms' w'. parent_loop env minC fr prs ms w = (Inr ms', w') \<and> db_faults w' = []
           \<and> ids_unique (matchedCases w')
           \<and> (\<forall>q g c st. (\<forall>pr\<in>set prs. (q, g) \<noteq> (report_id pr, report_id fr))
                 \<longrightarrow> stored q g c st w \<longrightarrow> stored q g c st w')
           \<and> (\<forall>pr\<in>set prs. images pr \<noteq> []
                  \<and> bm_matched (compareReportImages env (images pr) (images fr) minC)
                \<longrightarrow> stored (report_id pr) (report_id fr)
                      (Num (bm_confidence (compareReportImages env (images pr) (images fr) minC))) MATCHED w')"
  using assms
proof (induction prs arbitrary: ms w)
  case Nil
  then show ?case by (simp add: return_io_def)
next
  case (Cons pr prs)
  from Cons.prems(3) have d: "distinct (map report_id prs)" "report_id pr \<notin> report_id ` set prs"
    by simp_all
  show ?case
  proof (cases "images pr = []")
    case True
    from Cons.IH [OF Cons.prems(1,2) d(1), of ms]
    obtain ms' w' where l: "parent_loop env minC fr prs ms w = (Inr ms', w')" "db_faults w' = []"
      "ids_unique (matchedCases w')"
      "\<forall>q g c st. (\<forall>pr\<in>set prs. (q, g) \<noteq> (report_id pr, report_id fr))
                 \<longrightarrow> stored q g c st w \<longrightarrow> stored q g c st w'"
      "\<forall>pr\<in>set prs. images pr \<noteq> []
                  \<and> bm_matched (compareReportImages env (images pr) (images fr) minC)
                \<longrightarrow> stored (report_id pr) (report_id fr)
                      (Num (bm_confidence (compareReportImages env (images pr) (images fr) minC))) MATCHED w'"
      by blast
    have "parent_loop env minC fr (pr # prs) ms w = (Inr ms', w')" using True l(1) by simp
    with l(2,3,4,5) True show ?thesis by auto
  next
    case False
    from match_pair_stored [OF Cons.prems(1,2), of env minC pr fr ms]
    obtain ms1 w1 where s: "match_pair env minC pr fr ms w = (Inr ms1, w1)" "db_faults w1 = []"
      "ids_unique (matchedCases w1)"
      "\<forall>q g c st. (q, g) \<noteq> (report_id pr, report_id fr) \<longrightarrow> stored q g c st w \<longrightarrow> stored q g c st w1"
      "bm_matched (compareReportImages env (images pr) (images fr) minC)
         \<longrightarrow> stored (report_id pr) (report_id fr)
               (Num (bm_confidence (compareReportImages env (images pr) (images fr) minC))) MATCHED w1"
      by blast
    from Cons.IH [OF s(2,3) d(1), of ms1]
    obtain ms' w' where l: "parent_loop env minC fr prs ms1 w1 = (Inr ms', w')" "db_faults w' = []"
      "ids_unique (matchedCases w')"
      "\<forall>q g c st. (\<forall>pr\<in>set prs. (q, g) \<noteq> (report_id pr, report_id fr))
                 \<longrightarrow> stored q g c st w1 \<longrightarrow> stored q g c st w'"
      "\<forall>pr\<in>set prs. images pr \<noteq> []
                  \<and> bm_matched (compareReportImages env (images pr) (images fr) minC)
                \<longrightarrow> stored (report_id pr) (report_id fr)
                      (Num (bm_confidence (compareReportImages env (images pr) (images fr) minC))) MATCHED w'"
      by blast
    have run: "parent_loop env minC fr (pr # prs) ms w = (Inr ms', w')"
      using False s(1) l(1) by (simp add: bind_io_def)
    have other: "\<forall>x\<in>set prs. (report_id pr, report_id fr) \<noteq> (report_id x, report_id fr)"
      using d(2) by auto
    have head: "bm_matched (compareReportImages env (images pr) (images fr) minC)
         \<longrightarrow> stored (report_id pr) (report_id fr)
               (Num (bm_confidence (compareReportImages env (images pr) (images fr) minC))) MATCHED w'"
      using s(5) l(4) other by blast
    have frame: "\<forall>q g c st. (\<forall>x\<in>set (pr # prs). (q, g) \<noteq> (report_id x, report_id fr))
                 \<longrightarrow> stored q g c st w \<longrightarrow> stored q g c st w'"
      using s(4) l(4) by simp
    from run l(2,3,5) head frame show ?thesis by auto
  qed
qed

lemma distinct_filter_ids: "distinct (map report_id rs) \<Longrightarrow> distinct (map report_id (filter P rs))"
  by (rule distinct_map_filter)

lemma findMatchesForParentReport_stored:
  assumes "db_faults w = []" "ids_unique (matchedCases w)" "distinct (map report_id (finderReports w))"
    "find (\<lambda>r. report_id r = pid) (parentReports w) = Some pr" "images pr \<noteq> []"
  shows "\<forall>fr\<in>set (finderReports w). status fr = ACTIVE \<and> images fr \<noteq> []
            \<and> bm_matched (compareReportImages env (images pr) (images fr) minC)
          \<longrightarrow> stored pid (report_id fr)
                (Num (bm_confidence (compareReportImages env (images pr) (images fr) minC))) MATCHED
                (snd (findMatchesForParentReport env pid minC w))"
proof -
  define frs where "frs = filter (\<lambda>r. status r = ACTIVE) (finderReports w)"
  have d: "distinct (map report_id frs)" unfolding frs_def using assms(3) by (rule distinct_filter_ids)
  from finder_loop_stored [OF assms(1,2) d, of env minC pr "[]"]
  obtain ms' w' where l: "finder_loop env minC pr frs [] w = (Inr ms', w')"
    "\<forall>fr\<in>set frs. images fr \<noteq> []
                  \<and> bm_matched (compareReportImages env (images pr) (images fr) minC)
                \<longrightarrow> stored (report_id pr) (report_id fr)
                      (Num (bm_confidence (compareReportImages env (images pr) (images fr) minC))) MATCHED w'"
    by blast
  have "findMatchesForParentReport env pid minC w = (Inr (Response 200 ms'), w')"
    using assms(1,4,5) l(1)
    by (simp add: findMatchesForParentReport_def bind_io_def return_io_def frs_def
        parentReport_findUnique_def finderReport_findMany_def prisma_call_no_fault)
  moreover have "report_id pr = pid" using assms(4) by (auto dest: find_in_set)
  ultimately show ?thesis using l(2) by (simp add: frs_def)
qed

lemma findMatchesForFinderReport_stored:
  assumes "db_faults w = []" "ids_unique (matchedCases w)" "distinct (map report_id (parentReports w))"
    "find (\<lambda>r. report_id r = fid) (finderReports w) = Some fr" "images fr \<noteq> []"
  shows "\<forall>pr\<in>set (parentReports w). status pr = ACTIVE \<and> images pr \<noteq> []
            \<and> bm_matched (compareReportImages env (images pr) (images fr) minC)
          \<longrightarrow> stored (report_id pr) fid
                (Num (bm_confidence (compareReportImages env (images pr) (images fr) minC))) MATCHED
                (snd (findMatchesForFinderReport env fid minC w))"
proof -
  define prs where "prs = filter (\<lambda>r. status r = ACTIVE) (parentReports w)"
  have d: "distinct (map report_id prs)" unfolding prs_def using assms(3) by (rule distinct_filter_ids)
  from parent_loop_stored [OF assms(1,2) d, of env minC fr "[]"]
  obtain ms' w' where l: "parent_loop env minC fr prs [] w = (Inr ms', w')"
    "\<forall>pr\<in>set prs. images pr \<noteq> []
                  \<and> bm_matched (compareReportImages env (images pr) (images fr) minC)
                \<longrightarrow> stored (report_id pr) (report_id fr)
                      (Num (bm_confidence (compareReportImages env (images pr) (images fr) minC))) MATCHED w'"
    by blast
  have "findMatchesForFinderReport env fid minC w = (Inr (Response 200 ms'), w')"
    using assms(1,4,5) l(1)
    by (simp add: findMatchesForFinderReport_def bind_io_def return_io_def prs_def
        finderReport_findUnique_def parentReport_findMany_def prisma_call_no_fault)
  moreover have "report_id fr = fid" using assms(4) by (auto dest: find_in_set)
  ultimately show ?thesis using l(2) by (simp add: prs_def)
qed

text \<open>The number of rows of a pair that is stored after a run of an entry point.\<close>

lemma stored_count: "stored p f c st w \<Longrightarrow> 1 \<le> count_pair p f (matchedCases w)"
proof -
  assume "stored p f c st w"
  then obtain m where "m \<in> set (matchedCases w)" "same_pair p f m"
    by (auto simp: stored_def list_ex_iff)
  then have "filter (same_pair p f) (matchedCases w) \<noteq> []" by (auto simp: filter_empty_conv)
  then show ?thesis by (cases "filter (same_pair p f) (matchedCases w)") (simp_all add: count_pair_def)
qed

lemma lawful_stored_count:
  assumes "lawful w w'" "stored p f c st w'"
  shows "count_pair p f (matchedCases w') = max 1 (count_pair p f (matchedCases w))"
proof -
  from assms(1) have "count_pair p f (matchedCases w') = count_pair p f (matchedCases w)
      \<or> (count_pair p f (matchedCases w) = 0 \<and> count_pair p f (matchedCases w') = 1)"
    by (simp add: lawful_def extends_def no_second_record_def)
  with stored_count [OF assms(2)] show ?thesis by auto
qed

text \<open>\<open>compareSpecificReports\<close> when no database call fails and the pair matched.\<close>

lemma compareSpecificReports_upsert:
  assumes "db_faults w = []" "pid \<noteq> []" "fid \<noteq> []"
    "find (\<lambda>r. report_id r = pid) (parentReports w) = Some pr"
    "find (\<lambda>r. report_id r = fid) (finderReports w) = Some fr"
    "images pr \<noteq> []" "images fr \<noteq> []"
    "bm_matched (compareReportImages env (images pr) (images fr) minC)"
  shows "compareSpecificReports env pid fid minC w =
           (case upsert_match pid fid (bm_confidence (compareReportImages env (images pr) (images fr) minC)) w of
              (Inl e, w1) \<Rightarrow> (Inl e, w1)
            | (Inr row, w1) \<Rightarrow> (Inr (Response 200 [row]), w1))"
  using assms
  by (simp add: compareSpecificReports_def bind_io_def return_io_def parentReport_findUnique_def
      finderReport_findUnique_def prisma_call_no_fault Let_def split: prod.splits sum.splits)

lemma find_append_Some: "find P xs = Some x \<Longrightarrow> find P (xs @ ys) = Some x"
  by (induction xs) (auto split: if_splits)

lemma find_append_None: "find P xs = None \<Longrightarrow> find P (xs @ ys) = find P ys"
  by (induction xs) (auto split: if_splits)

text \<open>One candidate of \<open>findMatches\<close>, no faults: nothing changes, or the pair had no row
  and gets the row with \<open>bestSimilarity\<close> and status PENDING.\<close>

lemma match_candidate_step:
  assumes "fault_free w"
  shows "\<exists>ms1 w1. match_candidate rid rt s t ms w = (Inr ms1, w1) \<and> fault_free w1
           \<and> (if accepted s t
                 \<and> find (same_pair (fst (stored_pair rid rt t)) (snd (stored_pair rid rt t))) (matchedCases w) = None
               then matchedCases w1 =
                      matchedCases w @ [new_row w (fst (stored_pair rid rt t)) (snd (stored_pair rid rt t))
                                          (bestSimilarity_of s t) PENDING]
               else matchedCases w1 = matchedCases w)"
proof (cases "accepted s t")
  case False
  with assms show ?thesis by (simp add: match_candidate_rejected)
next
  case True
  have mc: "match_candidate rid rt s t ms =
       persist_candidate (fst (stored_pair rid rt t)) (snd (stored_pair rid rt t))
         (if rt = ''PARENT'' then s else t) (if rt = ''PARENT'' then t else s)
         (bestSimilarity_of s t) ms"
    using True by (rule match_candidate_accepted)
  show ?thesis
  proof (cases "find (same_pair (fst (stored_pair rid rt t)) (snd (stored_pair rid rt t))) (matchedCases w)")
    case None
    from persist_candidate_new [OF assms None] mc assms True None show ?thesis
      by (simp add: fault_free_def)
  next
    case (Some e)
    from persist_candidate_existing [OF assms Some] mc assms Some show ?thesis by simp
  qed
qed

lemma match_loop_existing:
  assumes "fault_free w" "find (same_pair p f) (matchedCases w) = Some e"
  shows "find (same_pair p f) (matchedCases (snd (match_loop rid rt s targets ms w))) = Some e"
proof -
  from match_loop_fault_free [OF assms(1), of rid rt s targets ms]
  obtain ms' w' new where "match_loop rid rt s targets ms w = (Inr ms', w')"
    "matchedCases w' = matchedCases w @ new" by auto
  with assms(2) show ?thesis by (simp add: find_append_Some)
qed

lemma stored_pair_inj: "report_id t0 \<noteq> report_id t \<Longrightarrow> stored_pair rid rt t0 \<noteq> stored_pair rid rt t"
  by (simp add: stored_pair_def)

lemma match_loop_pending:
  assumes "fault_free w" "distinct (map report_id targets)" "t \<in> set targets" "accepted s t"
    "find (same_pair (fst (stored_pair rid rt t)) (snd (stored_pair rid rt t))) (matchedCases w) = None"
  shows "\<exists>m. find (same_pair (fst (stored_pair rid rt t)) (snd (stored_pair rid rt t)))
                (matchedCases (snd (match_loop rid rt s targets ms w))) = Some m
             \<and> matchConfidence m = bestSimilarity_of s t \<and> mc_status m = PENDING
             \<and> notificationSent m = False"
  using assms
proof (induction targets arbitrary: ms w)
  case Nil
  then show ?case by simp
next
  case (Cons t0 targets)
  define p where "p = fst (stored_pair rid rt t)"
  define f where "f = snd (stored_pair rid rt t)"
  from match_candidate_step [OF Cons.prems(1), of rid rt s t0 ms]
  obtain ms1 w1 where c: "match_candidate rid rt s t0 ms w = (Inr ms1, w1)" "fault_free w1"
    "if accepted s t0
        \<and> find (same_pair (fst (stored_pair rid rt t0)) (snd (stored_pair rid rt t0))) (matchedCases w) = None
     then matchedCases w1 =
            matchedCases w @ [new_row w (fst (stored_pair rid rt t0)) (snd (stored_pair rid rt t0))
                                (bestSimilarity_of s t0) PENDING]
     else matchedCases w1 = matchedCases w" by blast
  have loop: "match_loop rid rt s (t0 # targets) ms w = match_loop rid rt s targets ms1 w1"
    using c(1) by (simp add: bind_io_def)
  show ?case
  proof (cases "t0 = t")
    case True
    define row where "row = new_row w p f (bestSimilarity_of s t) PENDING"
    have w1: "matchedCases w1 = matchedCases w @ [row]"
      using c(3) True Cons.prems(4,5) by (simp add: row_def p_def f_def)
    have "same_pair p f row" by (simp add: row_def new_row_def same_pair_def)
    then have "find (same_pair p f) (matchedCases w1) = Some row"
      using Cons.prems(5) by (simp add: w1 find_append_None p_def f_def)
    then have "find (same_pair p f) (matchedCases (snd (match_loop rid rt s targets ms1 w1))) = Some row"
      using c(2) by (intro match_loop_existing)
    moreover have "matchConfidence row = bestSimilarity_of s t" "mc_status row = PENDING"
      "notificationSent row = False" by (simp_all add: row_def new_row_def)
    ultimately show ?thesis unfolding loop p_def f_def by blast
  next
    case False
    with Cons.prems(2,3) have t: "t \<in> set targets" "report_id t0 \<noteq> report_id t" by auto
    from stored_pair_inj [OF t(2), of rid rt]
    have ne: "(fst (stored_pair rid rt t0), snd (stored_pair rid rt t0)) \<noteq> (p, f)"
      by (simp add: p_def f_def)
    have "\<not> same_pair p f (new_row w (fst (stored_pair rid rt t0)) (snd (stored_pair rid rt t0))
                                (bestSimilarity_of s t0) PENDING)"
      using ne by (auto simp: new_row_def same_pair_def)
    then have none: "find (same_pair p f) (matchedCases w1) = None"
      using c(3) Cons.prems(5) by (auto simp: find_append_None p_def f_def split: if_splits)
    from Cons.prems(2) have d: "distinct (map report_id targets)" by simp
    from Cons.IH [OF c(2) d t(1) Cons.prems(4), of ms1] none
    show ?thesis unfolding loop p_def f_def by simp
  qed
qed

lemma findMatches_existing:
  assumes "fault_free w" "find (same_pair p f) (matchedCases w) = Some e"
  shows "find (same_pair p f) (matchedCases (snd (findMatches rid rt w))) = Some e"
proof (cases "source_of rid rt w")
  case None
  with findMatches_fault_free [OF assms(1), of rid rt]
  have "snd (findMatches rid rt w) = w" by (metis option.simps(4) snd_conv)
  with assms(2) show ?thesis by simp
next
  case (Some s)
  with findMatches_fault_free [OF assms(1), of rid rt]
  have "findMatches rid rt w = match_loop rid rt s (candidates rid rt w) [] w" by simp
  with match_loop_existing [OF assms, of rid rt s "candidates rid rt w" "[]"] show ?thesis by simp
qed

lemma findMatches_pending:
  assumes "fault_free w" "distinct (map report_id (candidates rid rt w))"
    "source_of rid rt w = Some s" "t \<in> set (candidates rid rt w)" "accepted s t"
    "find (same_pair (fst (stored_pair rid rt t)) (snd (stored_pair rid rt t))) (matchedCases w) = None"
  shows "\<exists>m. find (same_pair (fst (stored_pair rid rt t)) (snd (stored_pair rid rt t)))
                (matchedCases (snd (findMatches rid rt w))) = Some m
             \<and> matchConfidence m = bestSimilarity_of s t \<and> mc_status m = PENDING
             \<and> notificationSent m = False"
proof -
  from findMatches_fault_free [OF assms(1), of rid rt] assms(3)
  have "findMatches rid rt w = match_loop rid rt s (candidates rid rt w) [] w" by simp
  with match_loop_pending [OF assms(1,2,4,5,6), of "[]"] show ?thesis by simp
qed

lemma oracle_A_B:
  "compareReportImages agreeing_oracle (images reportA) (images reportB) 85
     = \<lparr>bm_matched = True, bm_confidence = 95\<rparr>"
  by (simp add: compareReportImages_def compareMultipleFaces_def compareTwoFaces_def
      agreeing_oracle_def reportA_def reportB_def image_of_def)

lemma oracle_A_C:
  "compareReportImages agreeing_oracle (images reportA) (images reportC) 85
     = \<lparr>bm_matched = True, bm_confidence = 95\<rparr>"
  by (simp add: compareReportImages_def compareMultipleFaces_def compareTwoFaces_def
      agreeing_oracle_def reportA_def reportC_def image_of_def)

lemma world1_run:
  "matchedCases (snd (findMatches ''A'' ''PARENT'' world1)) =
     [\<lparr>mc_id = 1, parentCaseId = ''A'', finderCaseId = ''B'', matchConfidence = Num (3 / 4),
       mc_status = PENDING, notificationSent = False\<rparr>,
      \<lparr>mc_id = 2, parentCaseId = ''A'', finderCaseId = ''C'', matchConfidence = Num 1,
       mc_status = PENDING, notificationSent = False\<rparr>]"
  by (simp add: findMatches_def io_defs world1_def world0_def match_candidate_def persist_candidate_def
      threshold_value best_A_B best_A_C Let_def same_pair_def fresh_id_def)
     (simp add: reportA_def reportB_def reportC_def)

lemma world0_run:
  "matchedCases (snd (findMatches ''A'' ''PARENT'' world0)) =
     [\<lparr>mc_id = 1, parentCaseId = ''A'', finderCaseId = ''B'', matchConfidence = Num 1,
       mc_status = PENDING, notificationSent = False\<rparr>,
      \<lparr>mc_id = 2, parentCaseId = ''A'', finderCaseId = ''C'', matchConfidence = Num 1,
       mc_status = PENDING, notificationSent = False\<rparr>]"
  by (simp add: findMatches_def io_defs world0_def match_candidate_def persist_candidate_def
      threshold_value best_A_B best_A_C Let_def same_pair_def fresh_id_def)
     (simp add: reportA_def reportB_def reportC_def)

text \<open>
  C2, as stated, fails on the vector path. From an empty table, the rows that
  \<open>findMatches\<close> creates have status PENDING; and when the pair \<open>(A, B)\<close> has a
  row with confidence 0.75, a run that finds similarity 1 for the pair leaves the row as
  it was.
\<close>

theorem findMatches_upsert_counterexample:
  "bestSimilarity_of reportA reportB = Num 1
   \<and> map mc_status (matchedCases (snd (findMatches ''A'' ''PARENT'' world0))) = [PENDING, PENDING]
   \<and> matchedCases world1 ! 0 =
       \<lparr>mc_id = 1, parentCaseId = ''A'', finderCaseId = ''B'', matchConfidence = Num (3 / 4),
        mc_status = PENDING, notificationSent = False\<rparr>
   \<and> matchedCases (snd (findMatches ''A'' ''PARENT'' world1)) ! 0 =
       \<lparr>mc_id = 1, parentCaseId = ''A'', finderCaseId = ''B'', matchConfidence = Num (3 / 4),
        mc_status = PENDING, notificationSent = False\<rparr>"
  by (simp add: best_A_B world0_run world1_run) (simp add: world1_def world0_def)

text \<open>
  C2, amended. On the oracle path, when the database calls succeed and whatever
  notifications fail: \<open>compareSpecificReports\<close>, for a pair that matched, overwrites
  the confidence of the row of the pair with the confidence of the comparison and sets
  its status to MATCHED when the pair has a row, and otherwise appends a row with that
  confidence, status MATCHED and \<open>notificationSent = false\<close>; after
  \<open>findMatchesForParentReport\<close> and \<open>findMatchesForFinderReport\<close>, every active
  candidate with images that matched has a row with the confidence of its comparison
  and status MATCHED, and the pair has as many rows as before, or one if it had none.
  On the vector path, when no call fails, after \<open>findMatches\<close> the row of an
  accepted pair that had one is the row it had (confidence and status untouched), and
  an accepted pair that had none has a row with \<open>bestSimilarity\<close> as confidence,
  status PENDING and \<open>notificationSent = false\<close>. Identifiers of reports and of rows
  are unique, as primary keys are.
\<close>

theorem upsert_contract:
  "(db_faults w = [] \<and> ids_unique (matchedCases w) \<and> parentReportId \<noteq> [] \<and> finderReportId \<noteq> []
      \<and> find (\<lambda>r. report_id r = parentReportId) (parentReports w) = Some pr
      \<and> find (\<lambda>r. report_id r = finderReportId) (finderReports w) = Some fr
      \<and> images pr \<noteq> [] \<and> images fr \<noteq> []
      \<and> bm_matched (compareReportImages env (images pr) (images fr) minConfidence) \<longrightarrow>
      (\<forall>e. find (same_pair parentReportId finderReportId) (matchedCases w) = Some e \<longrightarrow>
         compareSpecificReports env parentReportId finderReportId minConfidence w =
           (Inr (Response 200
              [e\<lparr>matchConfidence :=
                    Num (bm_confidence (compareReportImages env (images pr) (images fr) minConfidence)),
                  mc_status := MATCHED\<rparr>]),
            w\<lparr>matchedCases :=
                map (\<lambda>m. if m = e
                          then e\<lparr>matchConfidence :=
                                   Num (bm_confidence (compareReportImages env (images pr) (images fr) minConfidence)),
                                 mc_status := MATCHED\<rparr>
                          else m)
                    (matchedCases w)\<rparr>))
      \<and> (find (same_pair parentReportId finderReportId) (matchedCases w) = None \<longrightarrow>
         compareSpecificReports env parentReportId finderReportId minConfidence w =
           (Inr (Response 200
              [new_row w parentReportId finderReportId
                 (Num (bm_confidence (compareReportImages env (images pr) (images fr) minConfidence))) MATCHED]),
            w\<lparr>matchedCases := matchedCases w @
                [new_row w parentReportId finderReportId
                   (Num (bm_confidence (compareReportImages env (images pr) (images fr) minConfidence)))
                   MATCHED]\<rparr>)))
   \<and> (db_faults w = [] \<and> ids_unique (matchedCases w) \<and> distinct (map report_id (finderReports w))
      \<and> find (\<lambda>r. report_id r = parentReportId) (parentReports w) = Some pr \<and> images pr \<noteq> [] \<longrightarrow>
      (\<forall>candidate\<in>set (finderReports w). status candidate = ACTIVE \<and> images candidate \<noteq> []
           \<and> bm_matched (compareReportImages env (images pr) (images candidate) minConfidence) \<longrightarrow>
         stored parentReportId (report_id candidate)
           (Num (bm_confidence (compareReportImages env (images pr) (images candidate) minConfidence)))
           MATCHED (snd (findMatchesForParentReport env parentReportId minConfidence w))
         \<and> count_pair parentReportId (report_id candidate)
             (matchedCases (snd (findMatchesForParentReport env parentReportId minConfidence w)))
           = max 1 (count_pair parentReportId (report_id candidate) (matchedCases w))))
   \<and> (db_faults w = [] \<and> ids_unique (matchedCases w) \<and> distinct (map report_id (parentReports w))
      \<and> find (\<lambda>r. report_id r = finderReportId) (finderReports w) = Some fr \<and> images fr \<noteq> [] \<longrightarrow>
      (\<forall>candidate\<in>set (parentReports w). status candidate = ACTIVE \<and> images candidate \<noteq> []
           \<and> bm_matched (compareReportImages env (images candidate) (images fr) minConfidence) \<longrightarrow>
         stored (report_id candidate) finderReportId
           (Num (bm_confidence (compareReportImages env (images candidate) (images fr) minConfidence)))
           MATCHED (snd (findMatchesForFinderReport env finderReportId minConfidence w))
         \<and> count_pair (report_id candidate) finderReportId
             (matchedCases (snd (findMatchesForFinderReport env finderReportId minConfidence w)))
           = max 1 (count_pair (report_id candidate) finderReportId (matchedCases w))))
   \<and> (fault_free w \<and> distinct (map report_id (candidates reportId reportType w))
      \<and> source_of reportId reportType w = Some s \<and> t \<in> set (candidates reportId reportType w)
      \<and> accepted s t \<longrightarrow>
      (\<forall>e. find (same_pair (fst (stored_pair reportId reportType t)) (snd (stored_pair reportId reportType t)))
              (matchedCases w) = Some e \<longrightarrow>
           find (same_pair (fst (stored_pair reportId reportType t)) (snd (stored_pair reportId reportType t)))
              (matchedCases (snd (findMatches reportId reportType w))) = Some e)
      \<and> (find (same_pair (fst (stored_pair reportId reportType t)) (snd (stored_pair reportId reportType t)))
              (matchedCases w) = None \<longrightarrow>
           (\<exists>m. find (same_pair (fst (stored_pair reportId reportType t))
                                 (snd (stored_pair reportId reportType t)))
                      (matchedCases (snd (findMatches reportId reportType w))) = Some m
                \<and> matchConfidence m = bestSimilarity_of s t \<and> mc_status m = PENDING
                \<and> notificationSent m = False)))"
proof (intro conjI impI allI ballI)
  fix e
  assume a: "db_faults w = [] \<and> ids_unique (matchedCases w) \<and> parentReportId \<noteq> [] \<and> finderReportId \<noteq> []
      \<and> find (\<lambda>r. report_id r = parentReportId) (parentReports w) = Some pr
      \<and> find (\<lambda>r. report_id r = finderReportId) (finderReports w) = Some fr
      \<and> images pr \<noteq> [] \<and> images fr \<noteq> []
      \<and> bm_matched (compareReportImages env (images pr) (images fr) minConfidence)"
    and e: "find (same_pair parentReportId finderReportId) (matchedCases w) = Some e"
  from a have run: "compareSpecificReports env parentReportId finderReportId minConfidence w =
           (case upsert_match parentReportId finderReportId
                   (bm_confidence (compareReportImages env (images pr) (images fr) minConfidence)) w of
              (Inl e, w1) \<Rightarrow> (Inl e, w1)
            | (Inr row, w1) \<Rightarrow> (Inr (Response 200 [row]), w1))"
    by (intro compareSpecificReports_upsert) simp_all
  from a e have "upsert_match parentReportId finderReportId
                   (bm_confidence (compareReportImages env (images pr) (images fr) minConfidence)) w =
           (Inr (e\<lparr>matchConfidence := Num (bm_confidence (compareReportImages env (images pr) (images fr) minConfidence)),
                  mc_status := MATCHED\<rparr>),
            w\<lparr>matchedCases :=
                map (\<lambda>m. if m = e then e\<lparr>matchConfidence := Num (bm_confidence (compareReportImages env (images pr) (images fr) minConfidence)),
                                         mc_status := MATCHED\<rparr> else m)
                    (matchedCases w)\<rparr>)"
    by (intro upsert_match_existing) simp_all
  with run show "compareSpecificReports env parentReportId finderReportId minConfidence w =
           (Inr (Response 200
              [e\<lparr>matchConfidence :=
                    Num (bm_confidence (compareReportImages env (images pr) (images fr) minConfidence)),
                  mc_status := MATCHED\<rparr>]),
            w\<lparr>matchedCases :=
                map (\<lambda>m. if m = e
                          then e\<lparr>matchConfidence :=
                                   Num (bm_confidence (compareReportImages env (images pr) (images fr) minConfidence)),
                                 mc_status := MATCHED\<rparr>
                          else m)
                    (matchedCases w)\<rparr>)"
    by simp
next
  assume a: "db_faults w = [] \<and> ids_unique (matchedCases w) \<and> parentReportId \<noteq> [] \<and> finderReportId \<noteq> []
      \<and> find (\<lambda>r. report_id r = parentReportId) (parentReports w) = Some pr
      \<and> find (\<lambda>r. report_id r = finderReportId) (finderReports w) = Some fr
      \<and> images pr \<noteq> [] \<and> images fr \<noteq> []
      \<and> bm_matched (compareReportImages env (images pr) (images fr) minConfidence)"
    and n: "find (same_pair parentReportId finderReportId) (matchedCases w) = None"
  from a have run: "compareSpecificReports env parentReportId finderReportId minConfidence w =
           (case upsert_match parentReportId finderReportId
                   (bm_confidence (compareReportImages env (images pr) (images fr) minConfidence)) w of
              (Inl e, w1) \<Rightarrow> (Inl e, w1)
            | (Inr row, w1) \<Rightarrow> (Inr (Response 200 [row]), w1))"
    by (intro compareSpecificReports_upsert) simp_all
  from a n upsert_match_new [of w parentReportId finderReportId
      "bm_confidence (compareReportImages env (images pr) (images fr) minConfidence)"]
  have "upsert_match parentReportId finderReportId
                   (bm_confidence (compareReportImages env (images pr) (images fr) minConfidence)) w =
           (Inr (new_row w parentReportId finderReportId
                   (Num (bm_confidence (compareReportImages env (images pr) (images fr) minConfidence))) MATCHED),
            w\<lparr>matchedCases := matchedCases w @
                [new_row w parentReportId finderReportId
                   (Num (bm_confidence (compareReportImages env (images pr) (images fr) minConfidence)))
                   MATCHED]\<rparr>)"
    by simp
  with run show "compareSpecificReports env parentReportId finderReportId minConfidence w =
           (Inr (Response 200
              [new_row w parentReportId finderReportId
                 (Num (bm_confidence (compareReportImages env (images pr) (images fr) minConfidence))) MATCHED]),
            w\<lparr>matchedCases := matchedCases w @
                [new_row w parentReportId finderReportId
                   (Num (bm_confidence (compareReportImages env (images pr) (images fr) minConfidence)))
                   MATCHED]\<rparr>)"
    by simp
next
  fix candidate
  assume a: "db_faults w = [] \<and> ids_unique (matchedCases w) \<and> distinct (map report_id (finderReports w))
      \<and> find (\<lambda>r. report_id r = parentReportId) (parentReports w) = Some pr \<and> images pr \<noteq> []"
    and c: "candidate \<in> set (finderReports w)"
      "status candidate = ACTIVE \<and> images candidate \<noteq> []
           \<and> bm_matched (compareReportImages env (images pr) (images candidate) minConfidence)"
  from a have "\<forall>fr\<in>set (finderReports w). status fr = ACTIVE \<and> images fr \<noteq> []
            \<and> bm_matched (compareReportImages env (images pr) (images fr) minConfidence)
          \<longrightarrow> stored parentReportId (report_id fr)
                (Num (bm_confidence (compareReportImages env (images pr) (images fr) minConfidence))) MATCHED
                (snd (findMatchesForParentReport env parentReportId minConfidence w))"
    by (intro findMatchesForParentReport_stored) simp_all
  with c show st: "stored parentReportId (report_id candidate)
           (Num (bm_confidence (compareReportImages env (images pr) (images candidate) minConfidence)))
           MATCHED (snd (findMatchesForParentReport env parentReportId minConfidence w))" by blast
  show "count_pair parentReportId (report_id candidate)
             (matchedCases (snd (findMatchesForParentReport env parentReportId minConfidence w)))
           = max 1 (count_pair parentReportId (report_id candidate) (matchedCases w))"
    using findMatchesForParentReport_lawful st by (rule lawful_stored_count)
next
  fix candidate
  assume a: "db_faults w = [] \<and> ids_unique (matchedCases w) \<and> distinct (map report_id (parentReports w))
      \<and> find (\<lambda>r. report_id r = finderReportId) (finderReports w) = Some fr \<and> images fr \<noteq> []"
    and c: "candidate \<in> set (parentReports w)"
      "status candidate = ACTIVE \<and> images candidate \<noteq> []
           \<and> bm_matched (compareReportImages env (images candidate) (images fr) minConfidence)"
  from a have "\<forall>pr\<in>set (parentReports w). status pr = ACTIVE \<and> images pr \<noteq> []
            \<and> bm_matched (compareReportImages env (images pr) (images fr) minConfidence)
          \<longrightarrow> stored (report_id pr) finderReportId
                (Num (bm_confidence (compareReportImages env (images pr) (images fr) minConfidence))) MATCHED
                (snd (findMatchesForFinderReport env finderReportId minConfidence w))"
    by (intro findMatchesForFinderReport_stored) simp_all
  with c show st: "stored (report_id candidate) finderReportId
           (Num (bm_confidence (compareReportImages env (images candidate) (images fr) minConfidence)))
           MATCHED (snd (findMatchesForFinderReport env finderReportId minConfidence w))" by blast
  show "count_pair (report_id candidate) finderReportId
             (matchedCases (snd (findMatchesForFinderReport env finderReportId minConfidence w)))
           = max 1 (count_pair (report_id candidate) finderReportId (matchedCases w))"
    using findMatchesForFinderReport_lawful st by (rule lawful_stored_count)
next
  fix e
  assume a: "fault_free w \<and> distinct (map report_id (candidates reportId reportType w))
      \<and> source_of reportId reportType w = Some s \<and> t \<in> set (candidates reportId reportType w)
      \<and> accepted s t"
    and e: "find (same_pair (fst (stored_pair reportId reportType t)) (snd (stored_pair reportId reportType t)))
              (matchedCases w) = Some e"
  from a e show "find (same_pair (fst (stored_pair reportId reportType t)) (snd (stored_pair reportId reportType t)))
              (matchedCases (snd (findMatches reportId reportType w))) = Some e"
    by (intro findMatches_existing) simp_all
next
  assume a: "fault_free w \<and> distinct (map report_id (candidates reportId reportType w))
      \<and> source_of reportId reportType w = Some s \<and> t \<in> set (candidates reportId reportType w)
      \<and> accepted s t"
    and n: "find (same_pair (fst (stored_pair reportId reportType t)) (snd (stored_pair reportId reportType t)))
              (matchedCases w) = None"
  from a n show "\<exists>m. find (same_pair (fst (stored_pair reportId reportType t))
                                 (snd (stored_pair reportId reportType t)))
                      (matchedCases (snd (findMatches reportId reportType w))) = Some m
                \<and> matchConfidence m = bestSimilarity_of s t \<and> mc_status m = PENDING
                \<and> notificationSent m = False"
    by (intro findMatches_pending) simp_all
qed

theorem upsert_contract_witness:
  "db_faults world1 = [] \<and> fault_free world1 \<and> ids_unique (matchedCases world1)
   \<and> distinct (map report_id (finderReports world1)) \<and> distinct (map report_id (parentReports world1))
   \<and> matchedCases world1 =
       [\<lparr>mc_id = 1, parentCaseId = ''A'', finderCaseId = ''B'', matchConfidence = Num (3 / 4),
         mc_status = PENDING, notificationSent = False\<rparr>]
   \<and> bm_matched (compareReportImages agreeing_oracle (images reportA) (images reportB) 85)
   \<and> bm_matched (compareReportImages agreeing_oracle (images reportA) (images reportC) 85)
   \<and> matchedCases (snd (compareSpecificReports agreeing_oracle ''A'' ''B'' 85 world1)) =
       [\<lparr>mc_id = 1, parentCaseId = ''A'', finderCaseId = ''B'', matchConfidence = Num 95,
         mc_status = MATCHED, notificationSent = False\<rparr>]
   \<and> matchedCases (snd (compareSpecificReports agreeing_oracle ''A'' ''C'' 85 world1)) =
       [\<lparr>mc_id = 1, parentCaseId = ''A'', finderCaseId = ''B'', matchConfidence = Num (3 / 4),
         mc_status = PENDING, notificationSent = False\<rparr>,
        \<lparr>mc_id = 2, parentCaseId = ''A'', finderCaseId = ''C'', matchConfidence = Num 95,
         mc_status = MATCHED, notificationSent = False\<rparr>]
   \<and> stored ''A'' ''B'' (Num 95) MATCHED (snd (findMatchesForParentReport agreeing_oracle ''A'' 85 world1))
   \<and> count_pair ''A'' ''B'' (matchedCases (snd (findMatchesForParentReport agreeing_oracle ''A'' 85 world1))) = 1
   \<and> stored ''A'' ''C'' (Num 95) MATCHED (snd (findMatchesForParentReport agreeing_oracle ''A'' 85 world1))
   \<and> count_pair ''A'' ''C'' (matchedCases (snd (findMatchesForParentReport agreeing_oracle ''A'' 85 world1))) = 1
   \<and> stored ''A'' ''B'' (Num 95) MATCHED (snd (findMatchesForFinderReport agreeing_oracle ''B'' 85 world1))
   \<and> accepted reportA reportB \<and> accepted reportA reportC
   \<and> bestSimilarity_of reportA reportC = Num 1
   \<and> find (same_pair ''A'' ''B'') (matchedCases (snd (findMatches ''A'' ''PARENT'' world1))) =
       Some \<lparr>mc_id = 1, parentCaseId = ''A'', finderCaseId = ''B'', matchConfidence = Num (3 / 4),
             mc_status = PENDING, notificationSent = False\<rparr>
   \<and> (\<exists>m. find (same_pair ''A'' ''C'') (matchedCases (snd (findMatches ''A'' ''PARENT'' world1))) = Some m
          \<and> matchConfidence m = Num 1 \<and> mc_status m = PENDING \<and> notificationSent m = False)"
proof -
  define rowAB where "rowAB = \<lparr>mc_id = 1, parentCaseId = ''A'', finderCaseId = ''B'',
      matchConfidence = Num (3 / 4), mc_status = PENDING, notificationSent = False\<rparr>"
  have db: "db_faults world1 = []" and ff: "fault_free world1"
    by (simp_all add: world1_def world0_def fault_free_def)
  have rows: "matchedCases world1 = [rowAB]" by (simp add: world1_def rowAB_def)
  have ids: "ids_unique (matchedCases world1)" by (simp add: rows ids_unique_def)
  have dist: "distinct (map report_id (finderReports world1))" "distinct (map report_id (parentReports world1))"
    by (simp_all add: world1_def world0_def reportB_def reportC_def)
  have fA: "find (\<lambda>r. report_id r = ''A'') (parentReports world1) = Some reportA"
    and fB: "find (\<lambda>r. report_id r = ''B'') (finderReports world1) = Some reportB"
    and fC: "find (\<lambda>r. report_id r = ''C'') (finderReports world1) = Some reportC"
    by (simp_all add: world1_def world0_def reportA_def reportB_def reportC_def)
  have img: "images reportA \<noteq> []" "images reportB \<noteq> []" "images reportC \<noteq> []"
    by (simp_all add: reportA_def reportB_def reportC_def)
  have act: "status reportA = ACTIVE" "status reportB = ACTIVE" "status reportC = ACTIVE"
    by (simp_all add: reportA_def reportB_def reportC_def)
  have rid: "report_id reportA = ''A''" "report_id reportB = ''B''" "report_id reportC = ''C''"
    by (simp_all add: reportA_def reportB_def reportC_def)
  have mem: "reportB \<in> set (finderReports world1)" "reportC \<in> set (finderReports world1)"
    "reportA \<in> set (parentReports world1)"
    by (simp_all add: world1_def world0_def)
  have mB: "bm_matched (compareReportImages agreeing_oracle (images reportA) (images reportB) 85)"
    and mC: "bm_matched (compareReportImages agreeing_oracle (images reportA) (images reportC) 85)"
    by (simp_all add: oracle_A_B oracle_A_C)
  have exB: "find (same_pair ''A'' ''B'') (matchedCases world1) = Some rowAB"
    and noC: "find (same_pair ''A'' ''C'') (matchedCases world1) = None"
    by (simp_all add: rows rowAB_def same_pair_def)
  have cntB: "count_pair ''A'' ''B'' (matchedCases world1) = 1"
    and cntC: "count_pair ''A'' ''C'' (matchedCases world1) = 0"
    by (simp_all add: rows rowAB_def count_pair_def same_pair_def)
  note specB = upsert_contract [where w = world1 and parentReportId = "''A''" and finderReportId = "''B''"
      and pr = reportA and fr = reportB and env = agreeing_oracle and minConfidence = 85]
  from specB db ids fA fB img mB exB
  have "compareSpecificReports agreeing_oracle ''A'' ''B'' 85 world1 =
           (Inr (Response 200
              [rowAB\<lparr>matchConfidence :=
                    Num (bm_confidence (compareReportImages agreeing_oracle (images reportA) (images reportB) 85)),
                  mc_status := MATCHED\<rparr>]),
            world1\<lparr>matchedCases :=
                map (\<lambda>m. if m = rowAB
                          then rowAB\<lparr>matchConfidence :=
                                   Num (bm_confidence (compareReportImages agreeing_oracle (images reportA) (images reportB) 85)),
                                 mc_status := MATCHED\<rparr>
                          else m)
                    (matchedCases world1)\<rparr>)"
    by simp
  then have r1: "matchedCases (snd (compareSpecificReports agreeing_oracle ''A'' ''B'' 85 world1)) =
       [\<lparr>mc_id = 1, parentCaseId = ''A'', finderCaseId = ''B'', matchConfidence = Num 95,
         mc_status = MATCHED, notificationSent = False\<rparr>]"
    by (simp add: rows oracle_A_B) (simp add: rowAB_def)
  note specC = upsert_contract [where w = world1 and parentReportId = "''A''" and finderReportId = "''C''"
      and pr = reportA and fr = reportC and env = agreeing_oracle and minConfidence = 85]
  from specC db ids fA fC img mC noC
  have "compareSpecificReports agreeing_oracle ''A'' ''C'' 85 world1 =
           (Inr (Response 200
              [new_row world1 ''A'' ''C''
                 (Num (bm_confidence (compareReportImages agreeing_oracle (images reportA) (images reportC) 85))) MATCHED]),
            world1\<lparr>matchedCases := matchedCases world1 @
                [new_row world1 ''A'' ''C''
                   (Num (bm_confidence (compareReportImages agreeing_oracle (images reportA) (images reportC) 85)))
                   MATCHED]\<rparr>)"
    by simp
  then have r2: "matchedCases (snd (compareSpecificReports agreeing_oracle ''A'' ''C'' 85 world1)) =
       [\<lparr>mc_id = 1, parentCaseId = ''A'', finderCaseId = ''B'', matchConfidence = Num (3 / 4),
         mc_status = PENDING, notificationSent = False\<rparr>,
        \<lparr>mc_id = 2, parentCaseId = ''A'', finderCaseId = ''C'', matchConfidence = Num 95,
         mc_status = MATCHED, notificationSent = False\<rparr>]"
    by (simp add: rows oracle_A_C new_row_def fresh_id_def) (simp add: rowAB_def)
  note par = upsert_contract [where w = world1 and parentReportId = "''A''" and pr = reportA
      and env = agreeing_oracle and minConfidence = 85]
  from par db ids dist(1) fA img(1)
  have allp: "\<forall>candidate\<in>set (finderReports world1). status candidate = ACTIVE \<and> images candidate \<noteq> []
           \<and> bm_matched (compareReportImages agreeing_oracle (images reportA) (images candidate) 85) \<longrightarrow>
         stored ''A'' (report_id candidate)
           (Num (bm_confidence (compareReportImages agreeing_oracle (images reportA) (images candidate) 85)))
           MATCHED (snd (findMatchesForParentReport agreeing_oracle ''A'' 85 world1))
         \<and> count_pair ''A'' (report_id candidate)
             (matchedCases (snd (findMatchesForParentReport agreeing_oracle ''A'' 85 world1)))
           = max 1 (count_pair ''A'' (report_id candidate) (matchedCases world1))"
    by blast
  from allp mem(1) act(2) img(2) mB
  have p1: "stored ''A'' ''B'' (Num 95) MATCHED (snd (findMatchesForParentReport agreeing_oracle ''A'' 85 world1))"
    "count_pair ''A'' ''B'' (matchedCases (snd (findMatchesForParentReport agreeing_oracle ''A'' 85 world1))) = 1"
    unfolding rid by (auto simp: oracle_A_B rid cntB)
  from allp mem(2) act(3) img(3) mC
  have p2: "stored ''A'' ''C'' (Num 95) MATCHED (snd (findMatchesForParentReport agreeing_oracle ''A'' 85 world1))"
    "count_pair ''A'' ''C'' (matchedCases (snd (findMatchesForParentReport agreeing_oracle ''A'' 85 world1))) = 1"
    by (auto simp: oracle_A_C rid cntC)
  note fin = upsert_contract [where w = world1 and finderReportId = "''B''" and fr = reportB
      and env = agreeing_oracle and minConfidence = 85]
  from fin db ids dist(2) fB img(2)
  have allf: "\<forall>candidate\<in>set (parentReports world1). status candidate = ACTIVE \<and> images candidate \<noteq> []
           \<and> bm_matched (compareReportImages agreeing_oracle (images candidate) (images reportB) 85) \<longrightarrow>
         stored (report_id candidate) ''B''
           (Num (bm_confidence (compareReportImages agreeing_oracle (images candidate) (images reportB) 85)))
           MATCHED (snd (findMatchesForFinderReport agreeing_oracle ''B'' 85 world1))
         \<and> count_pair (report_id candidate) ''B''
             (matchedCases (snd (findMatchesForFinderReport agreeing_oracle ''B'' 85 world1)))
           = max 1 (count_pair (report_id candidate) ''B'' (matchedCases world1))"
    by blast
  from allf mem(3) act(1) img(1) mB
  have f1: "stored ''A'' ''B'' (Num 95) MATCHED (snd (findMatchesForFinderReport agreeing_oracle ''B'' 85 world1))"
    by (auto simp: oracle_A_B rid)
  have acc: "accepted reportA reportB" "accepted reportA reportC"
    by (simp_all add: accepted_def best_A_B best_A_C threshold_value)
  have cand: "candidates ''A'' ''PARENT'' world1 = [reportB, reportC]"
    by (simp add: candidates_def world1_def world0_def reportB_def reportC_def)
  have src: "source_of ''A'' ''PARENT'' world1 = Some reportA"
    by (simp add: source_of_def fA)
  have dc: "distinct (map report_id (candidates ''A'' ''PARENT'' world1))" by (simp add: cand rid)
  have sp: "stored_pair ''A'' ''PARENT'' reportB = (''A'', ''B'')" "stored_pair ''A'' ''PARENT'' reportC = (''A'', ''C'')"
    by (simp_all add: stored_pair_def rid)
  note vecB = upsert_contract [where w = world1 and reportId = "''A''" and reportType = "''PARENT''"
      and s = reportA and t = reportB]
  from vecB ff dc src acc(1) exB
  have v1: "find (same_pair ''A'' ''B'') (matchedCases (snd (findMatches ''A'' ''PARENT'' world1))) = Some rowAB"
    by (simp add: cand sp)
  note vecC = upsert_contract [where w = world1 and reportId = "''A''" and reportType = "''PARENT''"
      and s = reportA and t = reportC]
  from vecC ff dc src acc(2) noC
  have v2: "\<exists>m. find (same_pair ''A'' ''C'') (matchedCases (snd (findMatches ''A'' ''PARENT'' world1))) = Some m
          \<and> matchConfidence m = Num 1 \<and> mc_status m = PENDING \<and> notificationSent m = False"
    by (simp add: cand sp best_A_C)
  from db ff ids dist rows mB mC r1 r2 p1 p2 f1 acc best_A_C v1 v2 show ?thesis
    unfolding rowAB_def by blast
qed

section \<open>C8: what a failure does to a run\<close>

lemma has_matched_map:
  assumes "\<And>m. same_pair p f m \<and> mc_status m = MATCHED \<Longrightarrow> same_pair p f (g m) \<and> mc_status (g m) = MATCHED"
    and "list_ex (\<lambda>m. same_pair p f m \<and> mc_status m = MATCHED) ms"
  shows "list_ex (\<lambda>m. same_pair p f m \<and> mc_status m = MATCHED) (map g ms)"
  using assms by (auto simp: list_ex_iff)

text \<open>The upsert when no database call fails: it returns, and the pair has a MATCHED row.\<close>

lemma upsert_match_no_db_fault:
  assumes "db_faults w = []"
  shows "\<exists>row w1. upsert_match p f c w = (Inr row, w1) \<and> db_faults w1 = []
           \<and> has_matched p f w1 \<and> (\<forall>q g. has_matched q g w \<longrightarrow> has_matched q g w1)"
proof (cases "find (same_pair p f) (matchedCases w)")
  case None
  with assms show ?thesis
    by (auto simp: upsert_match_def bind_io_def matchedCase_findFirst_def matchedCase_create_def
        prisma_call_no_fault Let_def has_matched_def same_pair_def)
next
  case (Some e)
  then have e: "e \<in> set (matchedCases w)" "same_pair p f e" by (auto dest: find_in_set)
  define change where "change = (\<lambda>m::matched_case. m\<lparr>matchConfidence := Num c, mc_status := MATCHED\<rparr>)"
  define g where "g = (\<lambda>m. if mc_id m = mc_id e then change m else m)"
  from e obtain e0 where e0: "find (\<lambda>m. mc_id m = mc_id e) (matchedCases w) = Some e0"
    using find_Some_ex [of "\<lambda>m. mc_id m = mc_id e" "matchedCases w"] by auto
  have run: "upsert_match p f c w = (Inr (change e0), w\<lparr>matchedCases := map g (matchedCases w)\<rparr>)"
    using assms Some e0
    by (simp add: upsert_match_def bind_io_def matchedCase_findFirst_def matchedCase_update_def
        prisma_call_no_fault change_def g_def)
  have "g e \<in> set (map g (matchedCases w))" using e(1) by simp
  moreover have "same_pair p f (g e) \<and> mc_status (g e) = MATCHED"
    using e(2) by (simp add: g_def change_def same_pair_def)
  ultimately have here: "has_matched p f (w\<lparr>matchedCases := map g (matchedCases w)\<rparr>)"
    by (auto simp: has_matched_def list_ex_iff)
  have "list_ex (\<lambda>m. same_pair q h m \<and> mc_status m = MATCHED) (map g (matchedCases w))"
    if "list_ex (\<lambda>m. same_pair q h m \<and> mc_status m = MATCHED) (matchedCases w)" for q h
    using _ that by (rule has_matched_map) (simp add: g_def change_def same_pair_def)
  then have keep: "has_matched q h (w\<lparr>matchedCases := map g (matchedCases w)\<rparr>)" if "has_matched q h w" for q h
    using that by (simp add: has_matched_def)
  from run here keep assms show ?thesis by auto
qed

text \<open>The notifications of the handlers never raise; a fault in one of them is swallowed.\<close>

lemma notify_both_no_db_fault:
  assumes "db_faults w = []"
  shows "\<exists>w1. notify_both pr fr m w = (Inr (), w1) \<and> db_faults w1 = []
           \<and> (\<forall>q g. has_matched q g w \<longrightarrow> has_matched q g w1)"
proof -
  have keep: "list_ex (\<lambda>m. same_pair q h m \<and> mc_status m = MATCHED)
                 (map (\<lambda>x. if mc_id x = i then x\<lparr>notificationSent := True\<rparr> else x) (matchedCases w))"
    if "list_ex (\<lambda>m. same_pair q h m \<and> mc_status m = MATCHED) (matchedCases w)" for q h i
    using _ that by (rule has_matched_map) (simp add: same_pair_def)
  show ?thesis
    using assms keep
    by (auto simp: notify_both_def try_catch_def bind_io_def return_io_def sendNotification_def
        matchedCase_update_def prisma_call_no_fault has_matched_def Let_def
        split: list.splits option.splits)
qed

lemma match_pair_no_db_fault:
  assumes "db_faults w = []"
  shows "\<exists>ms1 w1. match_pair env minC pr fr ms w = (Inr ms1, w1) \<and> db_faults w1 = []
           \<and> (\<forall>q g. has_matched q g w \<longrightarrow> has_matched q g w1)
           \<and> (bm_matched (compareReportImages env (images pr) (images fr) minC)
                \<longrightarrow> has_matched (report_id pr) (report_id fr) w1)"
proof (cases "bm_matched (compareReportImages env (images pr) (images fr) minC)")
  case False
  with assms show ?thesis by (simp add: match_pair_def return_io_def)
next
  case True
  define c where "c = bm_confidence (compareReportImages env (images pr) (images fr) minC)"
  from upsert_match_no_db_fault [OF assms, of "report_id pr" "report_id fr" c]
  obtain row w1 where u: "upsert_match (report_id pr) (report_id fr) c w = (Inr row, w1)"
    "db_faults w1 = []" "has_matched (report_id pr) (report_id fr) w1"
    "\<forall>q g. has_matched q g w \<longrightarrow> has_matched q g w1" by auto
  from notify_both_no_db_fault [OF u(2), of pr fr row]
  obtain w2 where n: "notify_both pr fr row w1 = (Inr (), w2)" "db_faults w2 = []"
    "\<forall>q g. has_matched q g w1 \<longrightarrow> has_matched q g w2" by auto
  have "match_pair env minC pr fr ms w = (Inr (ms @ [row]), w2)"
    using True u(1) n(1) by (simp add: match_pair_def bind_io_def return_io_def c_def)
  with u n show ?thesis by auto
qed

lemma finder_loop_no_db_fault:
  assumes "db_faults w = []"
  shows "\<exists>ms' w'. finder_loop env minC pr frs ms w = (Inr ms', w') \<and> db_faults w' = []
           \<and> (\<forall>q g. has_matched q g w \<longrightarrow> has_matched q g w')
           \<and> (\<forall>fr\<in>set frs. images fr \<noteq> []
                  \<and> bm_matched (compareReportImages env (images pr) (images fr) minC)
                \<longrightarrow> has_matched (report_id pr) (report_id fr) w')"
  using assms
proof (induction frs arbitrary: ms w)
  case Nil
  then show ?case by (simp add: return_io_def)
next
  case (Cons fr frs)
  show ?case
  proof (cases "images fr = []")
    case True
    with Cons.IH [OF Cons.prems, of ms] show ?thesis by auto
  next
    case False
    from match_pair_no_db_fault [OF Cons.prems, of env minC pr fr ms]
    obtain ms1 w1 where s: "match_pair env minC pr fr ms w = (Inr ms1, w1)" "db_faults w1 = []"
      "\<forall>q g. has_matched q g w \<longrightarrow> has_matched q g w1"
      "bm_matched (compareReportImages env (images pr) (images fr) minC)
         \<longrightarrow> has_matched (report_id pr) (report_id fr) w1" by auto
    from Cons.IH [OF s(2), of ms1]
    obtain ms' w' where l: "finder_loop env minC pr frs ms1 w1 = (Inr ms', w')" "db_faults w' = []"
      "\<forall>q g. has_matched q g w1 \<longrightarrow> has_matched q g w'"
      "\<forall>fr\<in>set frs. images fr \<noteq> []
                  \<and> bm_matched (compareReportImages env (images pr) (images fr) minC)
                \<longrightarrow> has_matched (report_id pr) (report_id fr) w'" by auto
    have "finder_loop env minC pr (fr # frs) ms w = (Inr ms', w')"
      using False s(1) l(1) by (simp add: bind_io_def)
    with s l show ?thesis by auto
  qed
qed

lemma parent_loop_no_db_fault:
  assumes "db_faults w = []"
  shows "\<exists>ms' w'. parent_loop env minC fr prs ms w = (Inr ms', w') \<and> db_faults w' = []
           \<and> (\<forall>q g. has_matched q g w \<longrightarrow> has_matched q g w')
           \<and> (\<forall>pr\<in>set prs. images pr \<noteq> []
                  \<and> bm_matched (compareReportImages env (images pr) (images fr) minC)
                \<longrightarrow> has_matched (report_id pr) (report_id fr) w')"
  using assms
proof (induction prs arbitrary: ms w)
  case Nil
  then show ?case by (simp add: return_io_def)
next
  case (Cons pr prs)
  show ?case
  proof (cases "images pr = []")
    case True
    with Cons.IH [OF Cons.prems, of ms] show ?thesis by auto
  next
    case False
    from match_pair_no_db_fault [OF Cons.prems, of env minC pr fr ms]
    obtain ms1 w1 where s: "match_pair env minC pr fr ms w = (Inr ms1, w1)" "db_faults w1 = []"
      "\<forall>q g. has_matched q g w \<longrightarrow> has_matched q g w1"
      "bm_matched (compareReportImages env (images pr) (images fr) minC)
         \<longrightarrow> has_matched (report_id pr) (report_id fr) w1" by auto
    from Cons.IH [OF s(2), of ms1]
    obtain ms' w' where l: "parent_loop env minC fr prs ms1 w1 = (Inr ms', w')" "db_faults w' = []"
      "\<forall>q g. has_matched q g w1 \<longrightarrow> has_matched q g w'"
      "\<forall>pr\<in>set prs. images pr \<noteq> []
                  \<and> bm_matched (compareReportImages env (images pr) (images fr) minC)
                \<longrightarrow> has_matched (report_id pr) (report_id fr) w'" by auto
    have "parent_loop env minC fr (pr # prs) ms w = (Inr ms', w')"
      using False s(1) l(1) by (simp add: bind_io_def)
    with s l show ?thesis by auto
  qed
qed

lemma findMatchesForParentReport_no_db_fault:
  assumes "db_faults w = []" "find (\<lambda>r. report_id r = pid) (parentReports w) = Some pr" "images pr \<noteq> []"
  shows "\<exists>ms w'. findMatchesForParentReport env pid minC w = (Inr (Response 200 ms), w')
           \<and> (\<forall>fr\<in>set (finderReports w). status fr = ACTIVE \<and> images fr \<noteq> []
                  \<and> bm_matched (compareReportImages env (images pr) (images fr) minC)
                \<longrightarrow> has_matched pid (report_id fr) w')"
proof -
  from finder_loop_no_db_fault [OF assms(1), of env minC pr "filter (\<lambda>r. status r = ACTIVE) (finderReports w)" "[]"]
  obtain ms' w' where l: "finder_loop env minC pr (filter (\<lambda>r. status r = ACTIVE) (finderReports w)) [] w = (Inr ms', w')"
    "\<forall>fr\<in>set (filter (\<lambda>r. status r = ACTIVE) (finderReports w)). images fr \<noteq> []
                  \<and> bm_matched (compareReportImages env (images pr) (images fr) minC)
                \<longrightarrow> has_matched (report_id pr) (report_id fr) w'" by auto
  have "findMatchesForParentReport env pid minC w = (Inr (Response 200 ms'), w')"
    using assms l(1)
    by (simp add: findMatchesForParentReport_def bind_io_def return_io_def
        parentReport_findUnique_def finderReport_findMany_def prisma_call_no_fault)
  moreover have "report_id pr = pid" using assms(2) by (auto dest: find_in_set)
  ultimately show ?thesis using l(2) by auto
qed

lemma findMatchesForFinderReport_no_db_fault:
  assumes "db_faults w = []" "find (\<lambda>r. report_id r = fid) (finderReports w) = Some fr" "images fr \<noteq> []"
  shows "\<exists>ms w'. findMatchesForFinderReport env fid minC w = (Inr (Response 200 ms), w')
           \<and> (\<forall>pr\<in>set (parentReports w). status pr = ACTIVE \<and> images pr \<noteq> []
                  \<and> bm_matched (compareReportImages env (images pr) (images fr) minC)
                \<longrightarrow> has_matched (report_id pr) fid w')"
proof -
  from parent_loop_no_db_fault [OF assms(1), of env minC fr "filter (\<lambda>r. status r = ACTIVE) (parentReports w)" "[]"]
  obtain ms' w' where l: "parent_loop env minC fr (filter (\<lambda>r. status r = ACTIVE) (parentReports w)) [] w = (Inr ms', w')"
    "\<forall>pr\<in>set (filter (\<lambda>r. status r = ACTIVE) (parentReports w)). images pr \<noteq> []
                  \<and> bm_matched (compareReportImages env (images pr) (images fr) minC)
                \<longrightarrow> has_matched (report_id pr) (report_id fr) w'" by auto
  have "findMatchesForFinderReport env fid minC w = (Inr (Response 200 ms'), w')"
    using assms l(1)
    by (simp add: findMatchesForFinderReport_def bind_io_def return_io_def
        finderReport_findUnique_def parentReport_findMany_def prisma_call_no_fault)
  moreover have "report_id fr = fid" using assms(2) by (auto dest: find_in_set)
  ultimately show ?thesis using l(2) by auto
qed

text \<open>
  C8, as stated, fails in \<open>findMatches\<close>. Two candidates \<open>B\<close> and \<open>C\<close> are both
  accepted. When the first notification for \<open>B\<close> fails, the run ends with that
  error: the row of \<open>B\<close> stays, and \<open>C\<close> is never handled. When the lookup for
  \<open>B\<close> fails, the run ends with that error and no row is written.
\<close>

theorem findMatches_abort_counterexample:
  "accepted reportA reportB \<and> accepted reportA reportC
   \<and> candidates ''A'' ''PARENT'' world_notify_fault = [reportB, reportC]
   \<and> fst (findMatches ''A'' ''PARENT'' world_notify_fault) = Inl NotificationError
   \<and> map pair_of (matchedCases (snd (findMatches ''A'' ''PARENT'' world_notify_fault))) = [(''A'', ''B'')]
   \<and> candidates ''A'' ''PARENT'' world_db_fault = [reportB, reportC]
   \<and> fst (findMatches ''A'' ''PARENT'' world_db_fault) = Inl PrismaError
   \<and> matchedCases (snd (findMatches ''A'' ''PARENT'' world_db_fault)) = []"
proof -
  have acc: "accepted reportA reportB" "accepted reportA reportC"
    by (simp_all add: accepted_def best_A_B best_A_C threshold_value)
  have cand: "candidates ''A'' ''PARENT'' world_notify_fault = [reportB, reportC]"
    "candidates ''A'' ''PARENT'' world_db_fault = [reportB, reportC]"
    by (simp_all add: candidates_def world_notify_fault_def world_db_fault_def world0_def
        reportB_def reportC_def)
  have n: "findMatches ''A'' ''PARENT'' world_notify_fault =
      (Inl NotificationError,
       world0\<lparr>matchedCases := [\<lparr>mc_id = 1, parentCaseId = ''A'', finderCaseId = ''B'',
          matchConfidence = Num 1, mc_status = PENDING, notificationSent = False\<rparr>],
          notify_faults := []\<rparr>)"
    by (simp add: findMatches_def io_defs world_notify_fault_def world0_def match_candidate_def
        persist_candidate_def threshold_value best_A_B best_A_C Let_def same_pair_def
        fresh_id_def)
       (simp add: reportA_def reportB_def reportC_def)
  have d: "findMatches ''A'' ''PARENT'' world_db_fault = (Inl PrismaError, world0)"
    by (simp add: findMatches_def io_defs world_db_fault_def world0_def match_candidate_def
        persist_candidate_def threshold_value best_A_B best_A_C Let_def same_pair_def
        fresh_id_def)
       (simp add: reportA_def reportB_def reportC_def)
  from acc cand show ?thesis by (simp add: n d pair_of_def) (simp add: world0_def)
qed

text \<open>
  C8, amended. In the two list handlers of the controller a failure of a notification
  is swallowed: when the database calls succeed, whatever notifications fail, the run
  answers 200 and every active candidate with images that matched has a MATCHED row
  afterwards. On every path and under every fault, a pair never has fewer rows after
  the run than before: nothing is rolled back. A failure of a database call is not
  caught per candidate on any path: a lookup that fails raises from the step, and an
  error raised by the step of one candidate is the result of the whole loop, the
  remaining candidates not being visited.
\<close>

theorem failure_semantics:
  "(db_faults w = [] \<and> find (\<lambda>r. report_id r = parentReportId) (parentReports w) = Some pr
      \<and> images pr \<noteq> [] \<longrightarrow>
      (\<exists>ms. fst (findMatchesForParentReport env parentReportId minConfidence w) = Inr (Response 200 ms))
      \<and> (\<forall>fr\<in>set (finderReports w). status fr = ACTIVE \<and> images fr \<noteq> []
             \<and> bm_matched (compareReportImages env (images pr) (images fr) minConfidence) \<longrightarrow>
           has_matched parentReportId (report_id fr)
             (snd (findMatchesForParentReport env parentReportId minConfidence w))))
   \<and> (db_faults w = [] \<and> find (\<lambda>r. report_id r = finderReportId) (finderReports w) = Some fr
      \<and> images fr \<noteq> [] \<longrightarrow>
      (\<exists>ms. fst (findMatchesForFinderReport env finderReportId minConfidence w) = Inr (Response 200 ms))
      \<and> (\<forall>pr\<in>set (parentReports w). status pr = ACTIVE \<and> images pr \<noteq> []
             \<and> bm_matched (compareReportImages env (images pr) (images fr) minConfidence) \<longrightarrow>
           has_matched (report_id pr) finderReportId
             (snd (findMatchesForFinderReport env finderReportId minConfidence w))))
   \<and> (w' \<in> {snd (findMatches reportId reportType w),
              snd (findMatchesForParentReport env parentReportId minConfidence w),
              snd (findMatchesForFinderReport env finderReportId minConfidence w),
              snd (compareSpecificReports env parentReportId finderReportId minConfidence w)} \<longrightarrow>
        count_pair p f (matchedCases w) \<le> count_pair p f (matchedCases w'))
   \<and> (match_candidate reportId reportType s t ms w = (Inl e, w1) \<longrightarrow>
        match_loop reportId reportType s (t # rest) ms w = (Inl e, w1))
   \<and> (images fr \<noteq> [] \<and> match_pair env minConfidence pr fr ms w = (Inl e, w1) \<longrightarrow>
        finder_loop env minConfidence pr (fr # rest) ms w = (Inl e, w1))
   \<and> (images pr \<noteq> [] \<and> match_pair env minConfidence pr fr ms w = (Inl e, w1) \<longrightarrow>
        parent_loop env minConfidence fr (pr # rest) ms w = (Inl e, w1))
   \<and> (db_faults w = True # faults \<longrightarrow>
        fst (persist_candidate p f pr fr b ms w) = Inl PrismaError
        \<and> fst (upsert_match p f c w) = Inl PrismaError)"
proof (intro conjI impI)
  assume a: "db_faults w = [] \<and> find (\<lambda>r. report_id r = parentReportId) (parentReports w) = Some pr
      \<and> images pr \<noteq> []"
  from findMatchesForParentReport_no_db_fault [of w parentReportId pr env minConfidence] a
  obtain ms w2 where r: "findMatchesForParentReport env parentReportId minConfidence w = (Inr (Response 200 ms), w2)"
    "\<forall>fr\<in>set (finderReports w). status fr = ACTIVE \<and> images fr \<noteq> []
                  \<and> bm_matched (compareReportImages env (images pr) (images fr) minConfidence)
                \<longrightarrow> has_matched parentReportId (report_id fr) w2" by blast
  from r(1) show "\<exists>ms. fst (findMatchesForParentReport env parentReportId minConfidence w) = Inr (Response 200 ms)"
    by simp
  from r show "\<forall>fr\<in>set (finderReports w). status fr = ACTIVE \<and> images fr \<noteq> []
             \<and> bm_matched (compareReportImages env (images pr) (images fr) minConfidence) \<longrightarrow>
           has_matched parentReportId (report_id fr)
             (snd (findMatchesForParentReport env parentReportId minConfidence w))" by simp
next
  assume a: "db_faults w = [] \<and> find (\<lambda>r. report_id r = finderReportId) (finderReports w) = Some fr
      \<and> images fr \<noteq> []"
  from findMatchesForFinderReport_no_db_fault [of w finderReportId fr env minConfidence] a
  obtain ms w2 where r: "findMatchesForFinderReport env finderReportId minConfidence w = (Inr (Response 200 ms), w2)"
    "\<forall>pr\<in>set (parentReports w). status pr = ACTIVE \<and> images pr \<noteq> []
                  \<and> bm_matched (compareReportImages env (images pr) (images fr) minConfidence)
                \<longrightarrow> has_matched (report_id pr) finderReportId w2" by blast
  from r(1) show "\<exists>ms. fst (findMatchesForFinderReport env finderReportId minConfidence w) = Inr (Response 200 ms)"
    by simp
  from r show "\<forall>pr\<in>set (parentReports w). status pr = ACTIVE \<and> images pr \<noteq> []
             \<and> bm_matched (compareReportImages env (images pr) (images fr) minConfidence) \<longrightarrow>
           has_matched (report_id pr) finderReportId
             (snd (findMatchesForFinderReport env finderReportId minConfidence w))" by simp
next
  assume "w' \<in> {snd (findMatches reportId reportType w),
              snd (findMatchesForParentReport env parentReportId minConfidence w),
              snd (findMatchesForFinderReport env finderReportId minConfidence w),
              snd (compareSpecificReports env parentReportId finderReportId minConfidence w)}"
  then have "lawful w w'" by (rule entry_points_lawful)
  then show "count_pair p f (matchedCases w) \<le> count_pair p f (matchedCases w')"
    by (rule lawful_facts(4))
next
  assume "match_candidate reportId reportType s t ms w = (Inl e, w1)"
  then show "match_loop reportId reportType s (t # rest) ms w = (Inl e, w1)"
    by (simp add: bind_io_def)
next
  assume "images fr \<noteq> [] \<and> match_pair env minConfidence pr fr ms w = (Inl e, w1)"
  then show "finder_loop env minConfidence pr (fr # rest) ms w = (Inl e, w1)"
    by (simp add: bind_io_def)
next
  assume "images pr \<noteq> [] \<and> match_pair env minConfidence pr fr ms w = (Inl e, w1)"
  then show "parent_loop env minConfidence fr (pr # rest) ms w = (Inl e, w1)"
    by (simp add: bind_io_def)
next
  assume "db_faults w = True # faults"
  then show "fst (persist_candidate p f pr fr b ms w) = Inl PrismaError"
    by (simp add: persist_candidate_def bind_io_def matchedCase_findFirst_def prisma_call_def)
next
  assume "db_faults w = True # faults"
  then show "fst (upsert_match p f c w) = Inl PrismaError"
    by (simp add: upsert_match_def bind_io_def matchedCase_findFirst_def prisma_call_def)
qed

theorem failure_semantics_witness:
  "db_faults world_notify_fault = [] \<and> notify_faults world_notify_fault = [True]
   \<and> find (\<lambda>r. report_id r = ''A'') (parentReports world_notify_fault) = Some reportA
   \<and> images reportA \<noteq> []
   \<and> reportC \<in> set (finderReports world_notify_fault) \<and> status reportC = ACTIVE
   \<and> images reportC \<noteq> []
   \<and> bm_matched (compareReportImages agreeing_oracle (images reportA) (images reportC) 85)
   \<and> has_matched ''A'' ''C'' (snd (findMatchesForParentReport agreeing_oracle ''A'' 85 world_notify_fault))"
proof -
  have h: "db_faults world_notify_fault = []" "notify_faults world_notify_fault = [True]"
    "find (\<lambda>r. report_id r = ''A'') (parentReports world_notify_fault) = Some reportA"
    "images reportA \<noteq> []" "reportC \<in> set (finderReports world_notify_fault)"
    "status reportC = ACTIVE" "images reportC \<noteq> []"
    by (simp_all add: world_notify_fault_def world0_def reportA_def reportC_def)
  have m: "bm_matched (compareReportImages agreeing_oracle (images reportA) (images reportC) 85)"
    by (simp add: oracle_A_C)
  have id: "report_id reportC = ''C''" by (simp add: reportC_def)
  from failure_semantics [of world_notify_fault "''A''" reportA agreeing_oracle 85] h(1,3,4)
  have "\<forall>fr\<in>set (finderReports world_notify_fault). status fr = ACTIVE \<and> images fr \<noteq> []
             \<and> bm_matched (compareReportImages agreeing_oracle (images reportA) (images fr) 85) \<longrightarrow>
           has_matched ''A'' (report_id fr)
             (snd (findMatchesForParentReport agreeing_oracle ''A'' 85 world_notify_fault))" by blast
  with h(5,6,7) m have "has_matched ''A'' (report_id reportC)
             (snd (findMatchesForParentReport agreeing_oracle ''A'' 85 world_notify_fault))" by blast
  with h m id show ?thesis by simp
qed

end
